theory Spec2Isabelle
  imports Complex_Main "HOL-Library.Multiset"
begin

section \<open>Pricing: monthly revenue and effective price per student\<close>

text \<open>
  The pricing expressions occur inline in \<open>DashboardService.overview\<close> (top classes,
  \<open>estimatedRevenueCents\<close>) and in \<open>TeachersService.listTeacherClasses\<close>
  (\<open>baseRevenue\<close>, \<open>effectivePricePerStudent\<close>).  Cent amounts are JavaScript numbers
  holding integers; they are modelled as \<open>int\<close> (exact as long as the values stay below
  \<open>2^53\<close>).  A field that may be \<open>null\<close> or \<open>undefined\<close> is an \<open>option\<close>, and
  \<open>x ?? 0\<close> is \<open>nullish0 x\<close>.
\<close>

datatype PricingMode = PER_STUDENT | FIXED_TOTAL

definition nullish0 :: "int option \<Rightarrow> int" where
  "nullish0 x = (case x of None \<Rightarrow> 0 | Some v \<Rightarrow> v)"

record RawClassTeacherUser =
  tu_firstName :: "string option"
  tu_lastName :: "string option"

record RawClassTeacher =
  rt_user :: "RawClassTeacherUser option"

text \<open>\<open>RawClass\<close> of the dashboard; the students are opaque there, only counted.\<close>

record RawClass =
  rc_id :: string
  rc_name :: string
  rc_pricingMode :: PricingMode
  rc_monthlyPriceCents :: "int option"
  rc_fixedMonthlyPriceCents :: "int option"
  rc_students :: "string list"
  rc_teacher :: "RawClassTeacher option"

text \<open>\<open>c.students?.length || 0\<close>\<close>

definition rc_studentCount :: "RawClass \<Rightarrow> int" where
  "rc_studentCount c = int (length (rc_students c))"

text \<open>
  \<open>c.pricingMode === 'FIXED_TOTAL' ? (c.fixedMonthlyPriceCents ?? 0)
     : (c.monthlyPriceCents ?? 0) * studentCount\<close>
\<close>

definition estimatedRevenueCents :: "RawClass \<Rightarrow> int" where
  "estimatedRevenueCents c =
     (if rc_pricingMode c = FIXED_TOTAL then nullish0 (rc_fixedMonthlyPriceCents c)
      else nullish0 (rc_monthlyPriceCents c) * rc_studentCount c)"

text \<open>\<open>RawCls\<close> of the teachers service, with the fields the pricing figures read.\<close>

record ClsUser =
  cu_firstName :: "string option"
  cu_lastName :: "string option"
  cu_email :: "string option"

record ClsStudent =
  cs_id :: string
  cs_user :: "ClsUser option"

record PriceOverride =
  po_studentId :: string
  po_classId :: string
  po_priceOverrideCents :: int

record RawCls =
  cl_id :: string
  cl_name :: string
  cl_pricingMode :: PricingMode
  cl_monthlyPriceCents :: "int option"
  cl_fixedMonthlyPriceCents :: "int option"
  cl_teacherFixedMonthlyPayCents :: "int option"
  cl_students :: "ClsStudent list"
  cl_studentPriceOverrides :: "PriceOverride list"

definition cl_studentCount :: "RawCls \<Rightarrow> int" where
  "cl_studentCount c = int (length (cl_students c))"

definition baseRevenue :: "RawCls \<Rightarrow> int" where
  "baseRevenue c =
     (if cl_pricingMode c = FIXED_TOTAL then nullish0 (cl_fixedMonthlyPriceCents c)
      else nullish0 (cl_monthlyPriceCents c) * cl_studentCount c)"

definition effectivePricePerStudent :: "RawCls \<Rightarrow> int" where
  "effectivePricePerStudent c =
     (if cl_pricingMode c = FIXED_TOTAL then nullish0 (cl_fixedMonthlyPriceCents c)
      else nullish0 (cl_monthlyPriceCents c))"


section \<open>JavaScript helpers: trimming and stable sorting\<close>

text \<open>
  Strings are lists of 8-bit characters.  \<open>String.prototype.trim\<close> strips white space
  and line terminators from both ends; in the 8-bit range these are the code units
  9 to 13, 32 and 160.
\<close>

definition isWhiteSpace :: "char \<Rightarrow> bool" where
  "isWhiteSpace c = (of_char c \<in> {9, 10, 11, 12, 13, 32, 160 :: nat})"

definition trim :: "string \<Rightarrow> string" where
  "trim s = rev (dropWhile isWhiteSpace (rev (dropWhile isWhiteSpace s)))"

text \<open>\<open>x ?? ''\<close> on an optional string.\<close>

definition nullishEmpty :: "string option \<Rightarrow> string" where
  "nullishEmpty x = (case x of None \<Rightarrow> [] | Some v \<Rightarrow> v)"

text \<open>
  \<open>Array.prototype.sort(cmp)\<close> is stable: elements that compare equal keep their order.
  For a consistent comparator its result is the stable sorted permutation, which
  insertion from the right computes: an element goes in front of the first element
  it does not compare greater than.
\<close>

fun insertBy :: "('a \<Rightarrow> 'a \<Rightarrow> int) \<Rightarrow> 'a \<Rightarrow> 'a list \<Rightarrow> 'a list" where
  "insertBy cmp x [] = [x]"
| "insertBy cmp x (y # ys) = (if cmp x y \<le> 0 then x # y # ys else y # insertBy cmp x ys)"

definition sortBy :: "('a \<Rightarrow> 'a \<Rightarrow> int) \<Rightarrow> 'a list \<Rightarrow> 'a list" where
  "sortBy cmp xs = foldr (insertBy cmp) xs []"


section \<open>Dashboard: top classes\<close>

record TopClass =
  tc_id :: string
  tc_name :: string
  tc_teacher :: "string option"
  tc_studentCount :: int
  tc_pricingMode :: PricingMode
  tc_estimatedRevenueCents :: int

text \<open>
  \<open>c.teacher?.user ? `${firstName ?? ''} ${lastName ?? ''}`.trim() : undefined\<close>
\<close>

definition rc_teacherName :: "RawClass \<Rightarrow> string option" where
  "rc_teacherName c =
     (case rc_teacher c of
        None \<Rightarrow> None
      | Some t \<Rightarrow>
          (case rt_user t of
             None \<Rightarrow> None
           | Some u \<Rightarrow>
               Some (trim (nullishEmpty (tu_firstName u) @ '' '' @ nullishEmpty (tu_lastName u)))))"

text \<open>The callback of \<open>topClassesRaw.map\<close>.\<close>

definition topClassEntry :: "RawClass \<Rightarrow> TopClass" where
  "topClassEntry c =
     \<lparr>tc_id = rc_id c, tc_name = rc_name c, tc_teacher = rc_teacherName c,
      tc_studentCount = rc_studentCount c, tc_pricingMode = rc_pricingMode c,
      tc_estimatedRevenueCents = estimatedRevenueCents c\<rparr>"

text \<open>\<open>(a, b) => b.studentCount - a.studentCount\<close>\<close>

definition byStudentCountDesc :: "TopClass \<Rightarrow> TopClass \<Rightarrow> int" where
  "byStudentCountDesc a b = tc_studentCount b - tc_studentCount a"

text \<open>\<open>topClassesRaw.map(...).sort(...).slice(0, 5)\<close>\<close>

definition topClasses :: "RawClass list \<Rightarrow> TopClass list" where
  "topClasses topClassesRaw = take 5 (sortBy byStudentCountDesc (map topClassEntry topClassesRaw))"


section \<open>Dashboard: current-month summary\<close>

text \<open>
  A \<open>Date\<close> read from the database is its time value, the milliseconds since the epoch.
\<close>

record InvoiceItem =
  ii_billedMonth :: int
  ii_lineTotalCents :: int
  ii_paidCents :: "int option"

record Invoice =
  inv_id :: string
  inv_status :: string
  inv_items :: "InvoiceItem list"

text \<open>\<open>items.reduce((s, i) => s + i.lineTotalCents, 0)\<close> and
  \<open>items.reduce((s, i) => s + (i.paidCents ?? 0), 0)\<close>\<close>

definition sumLineTotal :: "InvoiceItem list \<Rightarrow> int" where
  "sumLineTotal items = foldl (\<lambda>s i. s + ii_lineTotalCents i) 0 items"

definition sumPaid :: "InvoiceItem list \<Rightarrow> int" where
  "sumPaid items = foldl (\<lambda>s i. s + nullish0 (ii_paidCents i)) 0 items"

text \<open>
  The \<open>forEach\<close> over \<open>monthInvoices\<close> updates the two running totals
  \<open>currentMonthInvoicedCents\<close> and \<open>currentMonthPaidCents\<close>.
\<close>

definition currentMonthTotals :: "Invoice list \<Rightarrow> int \<times> int" where
  "currentMonthTotals monthInvoices =
     foldl (\<lambda>(invoiced, paid) inv.
              (invoiced + sumLineTotal (inv_items inv), paid + sumPaid (inv_items inv)))
           (0, 0) monthInvoices"

text \<open>
  The JavaScript \<open>/\<close> yields a floating-point number and, for a zero divisor, one of the
  non-finite values \<open>Infinity\<close> and \<open>NaN\<close>.  The quotient is modelled as the exact
  rational, and \<open>None\<close> stands for the non-finite results of a zero divisor.
\<close>

definition jsDivide :: "int \<Rightarrow> int \<Rightarrow> rat option" where
  "jsDivide a b = (if b = 0 then None else Some (of_int a / of_int b))"

record MonthSummary =
  ms_invoicedCents :: int
  ms_paidCents :: int
  ms_remainingCents :: int
  ms_paymentRate :: "rat option"

definition currentMonth :: "Invoice list \<Rightarrow> MonthSummary" where
  "currentMonth monthInvoices =
     (let (currentMonthInvoicedCents, currentMonthPaidCents) = currentMonthTotals monthInvoices;
          currentMonthRemainingCents = currentMonthInvoicedCents - currentMonthPaidCents;
          currentMonthPaymentRate =
            (if currentMonthInvoicedCents > 0
             then jsDivide currentMonthPaidCents currentMonthInvoicedCents
             else Some 0)
      in \<lparr>ms_invoicedCents = currentMonthInvoicedCents, ms_paidCents = currentMonthPaidCents,
          ms_remainingCents = currentMonthRemainingCents,
          ms_paymentRate = currentMonthPaymentRate\<rparr>)"

text \<open>Overdue total: \<open>Math.max(0, subtotal - paid)\<close> summed over the overdue invoices.\<close>

definition overdueAmountCents :: "Invoice list \<Rightarrow> int" where
  "overdueAmountCents overdueInvoices =
     foldl (\<lambda>acc inv. acc + max 0 (sumLineTotal (inv_items inv) - sumPaid (inv_items inv)))
           0 overdueInvoices"


section \<open>Dashboard: students by level\<close>











definition objectPrototypeKeys :: "string list" where
  "objectPrototypeKeys =
     [''constructor'', ''hasOwnProperty'', ''isPrototypeOf'', ''propertyIsEnumerable'',
      ''toLocaleString'', ''toString'', ''valueOf'', ''__defineGetter__'',
      ''__defineSetter__'', ''__lookupGetter__'', ''__lookupSetter__'', ''__proto__'']"







section \<open>JavaScript dates\<close>

text \<open>
  A \<open>Date\<close> holds a time value: an integral number of milliseconds since the epoch, or
  \<open>NaN\<close> for an invalid date.  A valid time value is an \<open>int\<close>; a date that may be
  invalid is an \<open>int option\<close> with \<open>None\<close> for \<open>NaN\<close>.  The functions below are the
  abstract operations of ECMAScript (Day, TimeWithinDay, DaysInYear, DayFromYear,
  YearFromTime, MonthFromTime, DateFromTime, WeekDay, MakeTime, MakeDay, MakeDate,
  TimeClip), on which \<open>Date.UTC\<close>, the \<open>getUTC...\<close> accessors, \<open>setUTCMinutes\<close> and
  \<open>toISOString\<close> are defined.
\<close>

definition msPerDay :: int where "msPerDay = 86400000"
definition msPerHour :: int where "msPerHour = 3600000"
definition msPerMinute :: int where "msPerMinute = 60000"
definition msPerSecond :: int where "msPerSecond = 1000"

definition Day :: "int \<Rightarrow> int" where
  "Day t = t div msPerDay"

definition TimeWithinDay :: "int \<Rightarrow> int" where
  "TimeWithinDay t = t mod msPerDay"

definition DaysInYear :: "int \<Rightarrow> int" where
  "DaysInYear y =
     (if y mod 4 \<noteq> 0 then 365
      else if y mod 100 \<noteq> 0 then 366
      else if y mod 400 \<noteq> 0 then 365
      else 366)"

definition DayFromYear :: "int \<Rightarrow> int" where
  "DayFromYear y =
     365 * (y - 1970) + (y - 1969) div 4 - (y - 1901) div 100 + (y - 1601) div 400"

definition TimeFromYear :: "int \<Rightarrow> int" where
  "TimeFromYear y = msPerDay * DayFromYear y"

text \<open>
  \<open>YearFromTime t\<close> is specified as the largest \<open>y\<close> with \<open>TimeFromYear y \<le> t\<close>.  It is
  computed from an estimate by the mean length of a year (146097 days in 400 years),
  which is off by at most one; \<open>YearFromTime_bounds\<close> and \<open>YearFromTime_unique\<close> below
  show that the result is the specified year.
\<close>

definition YearFromTime :: "int \<Rightarrow> int" where
  "YearFromTime t =
     (let d = Day t; y = 1970 + (400 * d) div 146097
      in if d < DayFromYear y then y - 1
         else if DayFromYear (y + 1) \<le> d then y + 1
         else y)"

definition InLeapYear :: "int \<Rightarrow> int" where
  "InLeapYear t = (if DaysInYear (YearFromTime t) = 366 then 1 else 0)"

definition DayWithinYear :: "int \<Rightarrow> int" where
  "DayWithinYear t = Day t - DayFromYear (YearFromTime t)"

definition MonthFromTime :: "int \<Rightarrow> int" where
  "MonthFromTime t =
     (let d = DayWithinYear t; l = InLeapYear t
      in if d < 31 then 0
         else if d < 59 + l then 1
         else if d < 90 + l then 2
         else if d < 120 + l then 3
         else if d < 151 + l then 4
         else if d < 181 + l then 5
         else if d < 212 + l then 6
         else if d < 243 + l then 7
         else if d < 273 + l then 8
         else if d < 304 + l then 9
         else if d < 334 + l then 10
         else 11)"

definition DateFromTime :: "int \<Rightarrow> int" where
  "DateFromTime t =
     (let d = DayWithinYear t; l = InLeapYear t; m = MonthFromTime t
      in if m = 0 then d + 1
         else if m = 1 then d - 30
         else if m = 2 then d - 58 - l
         else if m = 3 then d - 89 - l
         else if m = 4 then d - 119 - l
         else if m = 5 then d - 150 - l
         else if m = 6 then d - 180 - l
         else if m = 7 then d - 211 - l
         else if m = 8 then d - 242 - l
         else if m = 9 then d - 272 - l
         else if m = 10 then d - 303 - l
         else d - 333 - l)"

definition WeekDay :: "int \<Rightarrow> int" where
  "WeekDay t = (Day t + 4) mod 7"

definition HourFromTime :: "int \<Rightarrow> int" where
  "HourFromTime t = (t div msPerHour) mod 24"

definition MinFromTime :: "int \<Rightarrow> int" where
  "MinFromTime t = (t div msPerMinute) mod 60"

definition SecFromTime :: "int \<Rightarrow> int" where
  "SecFromTime t = (t div msPerSecond) mod 60"

definition msFromTime :: "int \<Rightarrow> int" where
  "msFromTime t = t mod msPerSecond"

definition MakeTime :: "int \<Rightarrow> int \<Rightarrow> int \<Rightarrow> int \<Rightarrow> int" where
  "MakeTime hour minute sec ms =
     hour * msPerHour + minute * msPerMinute + sec * msPerSecond + ms"

text \<open>
  \<open>MakeDay year month date\<close> takes the first day of the month \<open>month mod 12\<close> of the year
  \<open>year + month div 12\<close> and adds \<open>date - 1\<close> days.  The first day of a month is the
  first day of its year plus the lengths of the months before it
  (\<open>MakeDay_first_of_month\<close> below shows that it has the year, the month and the date 1
  that the specification asks for).
\<close>

definition daysBeforeMonth :: "int \<Rightarrow> int \<Rightarrow> int" where
  "daysBeforeMonth mn l =
     (if mn = 0 then 0
      else if mn = 1 then 31
      else if mn = 2 then 59 + l
      else if mn = 3 then 90 + l
      else if mn = 4 then 120 + l
      else if mn = 5 then 151 + l
      else if mn = 6 then 181 + l
      else if mn = 7 then 212 + l
      else if mn = 8 then 243 + l
      else if mn = 9 then 273 + l
      else if mn = 10 then 304 + l
      else 334 + l)"

definition MakeDay :: "int \<Rightarrow> int \<Rightarrow> int \<Rightarrow> int" where
  "MakeDay year month date =
     (let ym = year + month div 12; mn = month mod 12
      in DayFromYear ym + daysBeforeMonth mn (if DaysInYear ym = 366 then 1 else 0)
           + date - 1)"

definition MakeDate :: "int \<Rightarrow> int \<Rightarrow> int" where
  "MakeDate day time = day * msPerDay + time"

definition TimeClip :: "int \<Rightarrow> int option" where
  "TimeClip t = (if \<bar>t\<bar> > 8640000000000000 then None else Some t)"

text \<open>
  \<open>new Date(Date.UTC(year, month, date))\<close>; a year from 0 to 99 stands for 1900 + year.
\<close>

definition DateUTC :: "int \<Rightarrow> int \<Rightarrow> int \<Rightarrow> int option" where
  "DateUTC year month date =
     (let yr = (if 0 \<le> year \<and> year \<le> 99 then 1900 + year else year)
      in TimeClip (MakeDate (MakeDay yr month date) (MakeTime 0 0 0 0)))"

text \<open>\<open>d.setUTCMinutes(min, 0, 0)\<close> on a valid date, giving the new time value.\<close>

definition setUTCMinutes :: "int \<Rightarrow> int \<Rightarrow> int option" where
  "setUTCMinutes t minute =
     TimeClip (MakeDate (Day t) (MakeTime (HourFromTime t) minute 0 0))"

text \<open>Numbers to strings: an integer prints in decimal, with a minus sign when negative.\<close>

definition digitChar :: "nat \<Rightarrow> char" where
  "digitChar d = char_of (48 + d)"

fun showNat :: "nat \<Rightarrow> string" where
  "showNat n = (if n < 10 then [digitChar n] else showNat (n div 10) @ [digitChar (n mod 10)])"

declare showNat.simps [simp del]

definition numberToString :: "int \<Rightarrow> string" where
  "numberToString i = (if i < 0 then CHR ''-'' # showNat (nat (- i)) else showNat (nat i))"

definition padStart :: "nat \<Rightarrow> char \<Rightarrow> string \<Rightarrow> string" where
  "padStart n c s = replicate (n - length s) c @ s"

datatype error = RangeError

text \<open>
  \<open>toISOString\<close> raises a \<open>RangeError\<close> on an invalid date.  The year has four digits
  from 0 to 9999 and otherwise a sign and six digits.
\<close>

definition isoYear :: "int \<Rightarrow> string" where
  "isoYear y =
     (if 0 \<le> y \<and> y \<le> 9999 then padStart 4 (CHR ''0'') (numberToString y)
      else (if y < 0 then CHR ''-'' else CHR ''+'') # padStart 6 (CHR ''0'') (numberToString \<bar>y\<bar>))"

definition isoDate :: "int \<Rightarrow> string" where
  "isoDate t =
     isoYear (YearFromTime t) @ ''-''
       @ padStart 2 (CHR ''0'') (numberToString (MonthFromTime t + 1)) @ ''-''
       @ padStart 2 (CHR ''0'') (numberToString (DateFromTime t))"

definition isoTime :: "int \<Rightarrow> string" where
  "isoTime t =
     padStart 2 (CHR ''0'') (numberToString (HourFromTime t)) @ '':''
       @ padStart 2 (CHR ''0'') (numberToString (MinFromTime t)) @ '':''
       @ padStart 2 (CHR ''0'') (numberToString (SecFromTime t)) @ ''.''
       @ padStart 3 (CHR ''0'') (numberToString (msFromTime t))"

definition isoString :: "int \<Rightarrow> string" where
  "isoString t = isoDate t @ ''T'' @ isoTime t @ ''Z''"

definition toISOString :: "int option \<Rightarrow> error + string" where
  "toISOString d = (case d of None \<Rightarrow> Inl RangeError | Some t \<Rightarrow> Inr (isoString t))"

text \<open>\<open>s.split('T')[0]\<close>: the part of \<open>s\<close> before the first \<open>T\<close>.\<close>

definition beforeT :: "string \<Rightarrow> string" where
  "beforeT s = takeWhile (\<lambda>c. c \<noteq> CHR ''T'') s"


section \<open>Dashboard: monthly revenue trend\<close>

text \<open>
  \<open>monthKey(d)\<close>: the UTC year, a dash and the two-digit month.  On an invalid date both
  accessors give \<open>NaN\<close>.
\<close>

definition monthKeyOf :: "int \<Rightarrow> int \<Rightarrow> string" where
  "monthKeyOf year month =
     numberToString year @ ''-'' @ padStart 2 (CHR ''0'') (numberToString (month + 1))"

definition monthKey :: "int option \<Rightarrow> string" where
  "monthKey d =
     (case d of
        None \<Rightarrow> ''NaN-'' @ padStart 2 (CHR ''0'') ''NaN''
      | Some t \<Rightarrow> monthKeyOf (YearFromTime t) (MonthFromTime t))"

record MonthTotals =
  mt_invoicedCents :: int
  mt_paidCents :: int

text \<open>
  The body of \<open>invoiceItems.forEach\<close>.  \<open>monthMap\<close> is a plain object as well, but every
  month key contains a dash and so never names a property of \<open>Object.prototype\<close>:
  a key without an own property reads as \<open>undefined\<close>.
\<close>

definition addItem :: "(string \<rightharpoonup> MonthTotals) \<Rightarrow> InvoiceItem \<Rightarrow> (string \<rightharpoonup> MonthTotals)" where
  "addItem monthMap item =
     (let k = monthKey (Some (ii_billedMonth item));
          cur = (case monthMap k of
                   None \<Rightarrow> \<lparr>mt_invoicedCents = 0, mt_paidCents = 0\<rparr>
                 | Some v \<Rightarrow> v)
      in monthMap(k \<mapsto>
           \<lparr>mt_invoicedCents = mt_invoicedCents cur + ii_lineTotalCents item,
            mt_paidCents = mt_paidCents cur + nullish0 (ii_paidCents item)\<rparr>))"

definition buildMonthMap :: "InvoiceItem list \<Rightarrow> (string \<rightharpoonup> MonthTotals)" where
  "buildMonthMap invoiceItems = foldl addItem Map.empty invoiceItems"

record MonthBucket =
  mb_month :: string
  mb_invoicedCents :: int
  mb_paidCents :: int

text \<open>\<open>monthMap[mk]?.invoicedCents || 0\<close>: a missing entry and a zero both give 0.\<close>

definition orZero :: "int option \<Rightarrow> int" where
  "orZero x = (case x of None \<Rightarrow> 0 | Some v \<Rightarrow> if v = 0 then 0 else v)"

definition monthBucket :: "int \<Rightarrow> (string \<rightharpoonup> MonthTotals) \<Rightarrow> int \<Rightarrow> MonthBucket" where
  "monthBucket now monthMap i =
     (let d = DateUTC (YearFromTime now) (MonthFromTime now - i) 1;
          mk = monthKey d
      in \<lparr>mb_month = mk,
          mb_invoicedCents = orZero (map_option mt_invoicedCents (monthMap mk)),
          mb_paidCents = orZero (map_option mt_paidCents (monthMap mk))\<rparr>)"

text \<open>\<open>for (let i = 5; i >= 0; i--) monthlyRevenue.push(...)\<close>\<close>

function monthLoop :: "int \<Rightarrow> (string \<rightharpoonup> MonthTotals) \<Rightarrow> int \<Rightarrow> MonthBucket list \<Rightarrow> MonthBucket list" where
  "monthLoop now monthMap i acc =
     (if i \<ge> 0 then monthLoop now monthMap (i - 1) (acc @ [monthBucket now monthMap i])
      else acc)"
  by pat_completeness auto
termination
  by (relation "measure (\<lambda>(now, monthMap, i, acc). nat (i + 1))") auto

definition monthlyRevenue :: "int \<Rightarrow> InvoiceItem list \<Rightarrow> MonthBucket list" where
  "monthlyRevenue now invoiceItems = monthLoop now (buildMonthMap invoiceItems) 5 []"


section \<open>Dashboard: upcoming sessions\<close>

record ClassInfo =
  ci_name :: "string option"
  ci_teacher :: "RawClassTeacher option"

record ClassTime =
  ct_id :: string
  ct_classId :: string
  ct_dayOfWeek :: int
  ct_startMinutes :: int
  ct_endMinutes :: int
  ct_class :: "ClassInfo option"

record UpcomingSession =
  us_id :: string
  us_classId :: string
  us_className :: string
  us_teacher :: "string option"
  us_start :: string
  us_end :: string
  us_dayOfWeek :: int

definition horizon :: nat where
  "horizon = 7"

text \<open>\<open>clsInfo.class?.teacher?.user\<close> and the trimmed name built from it.\<close>

definition ct_teacherName :: "ClassTime \<Rightarrow> string option" where
  "ct_teacherName ct =
     (case ct_class ct of
        None \<Rightarrow> None
      | Some c \<Rightarrow>
          (case ci_teacher c of
             None \<Rightarrow> None
           | Some t \<Rightarrow>
               (case rt_user t of
                  None \<Rightarrow> None
                | Some u \<Rightarrow>
                    Some (trim (nullishEmpty (tu_firstName u) @ '' ''
                                  @ nullishEmpty (tu_lastName u))))))"

text \<open>\<open>clsInfo.class?.name || 'Unnamed'\<close>\<close>

definition ct_className :: "ClassTime \<Rightarrow> string" where
  "ct_className ct =
     (case ct_class ct of
        None \<Rightarrow> ''Unnamed''
      | Some c \<Rightarrow> (case ci_name c of None \<Rightarrow> ''Unnamed'' | Some n \<Rightarrow> if n = [] then ''Unnamed'' else n))"

text \<open>
  The body of the \<open>if\<close> for a matching date \<open>date\<close> (valid there): the session pushed, or
  the \<open>RangeError\<close> of a \<open>toISOString\<close> on an invalid start or end.
\<close>

definition makeSession :: "ClassTime \<Rightarrow> int \<Rightarrow> error + UpcomingSession" where
  "makeSession ct date =
     (let start = setUTCMinutes date (ct_startMinutes ct);
          end = setUTCMinutes date (ct_endMinutes ct)
      in case toISOString (Some date) of
           Inl e \<Rightarrow> Inl e
         | Inr dateIso \<Rightarrow>
             (case toISOString start of
                Inl e \<Rightarrow> Inl e
              | Inr startIso \<Rightarrow>
                  (case toISOString end of
                     Inl e \<Rightarrow> Inl e
                   | Inr endIso \<Rightarrow>
                       Inr \<lparr>us_id = ct_id ct @ ''-'' @ beforeT dateIso,
                            us_classId = ct_classId ct,
                            us_className = ct_className ct,
                            us_teacher = ct_teacherName ct,
                            us_start = startIso,
                            us_end = endIso,
                            us_dayOfWeek = ct_dayOfWeek ct\<rparr>)))"

text \<open>
  \<open>for (let offset = 0; offset < horizon; offset++)\<close>, with the sessions pushed so far.
  \<open>date.getUTCDay() === ct.dayOfWeek\<close> is false on an invalid date.
\<close>

function offsetLoop :: "int \<Rightarrow> ClassTime \<Rightarrow> nat \<Rightarrow> UpcomingSession list \<Rightarrow> error + UpcomingSession list" where
  "offsetLoop now ct offset upcoming =
     (if offset < horizon then
        (case DateUTC (YearFromTime now) (MonthFromTime now) (DateFromTime now + int offset) of
           None \<Rightarrow> offsetLoop now ct (offset + 1) upcoming
         | Some date \<Rightarrow>
             if WeekDay date = ct_dayOfWeek ct then
               (case makeSession ct date of
                  Inl e \<Rightarrow> Inl e
                | Inr s \<Rightarrow> offsetLoop now ct (offset + 1) (upcoming @ [s]))
             else offsetLoop now ct (offset + 1) upcoming)
      else Inr upcoming)"
  by pat_completeness auto
termination
  by (relation "measure (\<lambda>(now, ct, offset, upcoming). horizon - offset)") auto

declare offsetLoop.simps [simp del]

text \<open>\<open>for (const ct of classTimes)\<close>\<close>

fun classTimesLoop :: "int \<Rightarrow> ClassTime list \<Rightarrow> UpcomingSession list \<Rightarrow> error + UpcomingSession list" where
  "classTimesLoop now [] upcoming = Inr upcoming"
| "classTimesLoop now (ct # cts) upcoming =
     (case offsetLoop now ct 0 upcoming of
        Inl e \<Rightarrow> Inl e
      | Inr upcoming' \<Rightarrow> classTimesLoop now cts upcoming')"

text \<open>
  \<open>a.start.localeCompare(b.start)\<close>.  The strings compared are ISO instants, made of
  digits and of the separators \<open>- : . T Z\<close> at fixed places; two of them of the same
  length differ first at a digit, where every collation orders them as the code units
  do.  The comparison is modelled as the lexicographic order of the code units; it
  stands for the collation only on such strings.
\<close>

fun localeCompare :: "string \<Rightarrow> string \<Rightarrow> int" where
  "localeCompare [] [] = 0"
| "localeCompare [] (y # ys) = - 1"
| "localeCompare (x # xs) [] = 1"
| "localeCompare (x # xs) (y # ys) =
     (if (of_char x :: nat) < of_char y then - 1
      else if (of_char y :: nat) < of_char x then 1
      else localeCompare xs ys)"

definition byStart :: "UpcomingSession \<Rightarrow> UpcomingSession \<Rightarrow> int" where
  "byStart a b = localeCompare (us_start a) (us_start b)"

text \<open>The expansion followed by \<open>upcomingSessions.sort(...)\<close>.\<close>

definition upcomingSessions :: "int \<Rightarrow> ClassTime list \<Rightarrow> error + UpcomingSession list" where
  "upcomingSessions now classTimes =
     (case classTimesLoop now classTimes [] of
        Inl e \<Rightarrow> Inl e
      | Inr upcoming \<Rightarrow> Inr (sortBy byStart upcoming))"

text \<open>\<open>schedule.upcomingSessions\<close> of the report: \<open>upcomingSessions.slice(0, 15)\<close>.\<close>

definition scheduleUpcomingSessions :: "int \<Rightarrow> ClassTime list \<Rightarrow> error + UpcomingSession list" where
  "scheduleUpcomingSessions now classTimes =
     (case upcomingSessions now classTimes of
        Inl e \<Rightarrow> Inl e
      | Inr upcoming \<Rightarrow> Inr (take 15 upcoming))"


section \<open>Ranges of the clock and of the minute fields\<close>

text \<open>
  The reference instant \<open>now\<close> is the system clock.  The theorems on dates take a clock
  from the epoch (1970) on and at most \<open>8 * 10^15\<close> ms (before the year 255500), which
  keeps every date computed from it inside the valid range of time values
  (at most \<open>8.64 * 10^15\<close> ms from the epoch).  The theorems on the expansion take
  minute fields within the range of 32-bit integers.
\<close>

definition clockInRange :: "int \<Rightarrow> bool" where
  "clockInRange now = (0 \<le> now \<and> now \<le> 8000000000000000)"

definition int32 :: "int \<Rightarrow> bool" where
  "int32 x = (- 2147483648 \<le> x \<and> x \<le> 2147483647)"


section \<open>The schedule expansion of the specification\<close>

text \<open>
  The algorithm of the specification, to which the theorems relate the loops of the
  code: for each slot and each offset \<open>d\<close> below the horizon, the candidate date is the
  UTC date of the reference instant plus \<open>d\<close> days; where its weekday is the slot's, a
  session instance starts at the candidate date plus the start minutes, ends at the
  candidate date plus the end minutes, and is identified by the slot and the date.
\<close>

definition candidateDate :: "int \<Rightarrow> nat \<Rightarrow> int" where
  "candidateDate now d = MakeDate (Day now + int d) 0"

definition startInstant :: "int \<Rightarrow> ClassTime \<Rightarrow> nat \<Rightarrow> int" where
  "startInstant now ct d = candidateDate now d + ct_startMinutes ct * msPerMinute"

definition endInstant :: "int \<Rightarrow> ClassTime \<Rightarrow> nat \<Rightarrow> int" where
  "endInstant now ct d = candidateDate now d + ct_endMinutes ct * msPerMinute"

definition sessionInstance :: "int \<Rightarrow> ClassTime \<Rightarrow> nat \<Rightarrow> UpcomingSession" where
  "sessionInstance now ct d =
     \<lparr>us_id = ct_id ct @ ''-'' @ isoDate (candidateDate now d),
      us_classId = ct_classId ct,
      us_className = ct_className ct,
      us_teacher = ct_teacherName ct,
      us_start = isoString (startInstant now ct d),
      us_end = isoString (endInstant now ct d),
      us_dayOfWeek = ct_dayOfWeek ct\<rparr>"

definition expandSlot :: "int \<Rightarrow> ClassTime \<Rightarrow> UpcomingSession list" where
  "expandSlot now ct =
     concat (map (\<lambda>d. if WeekDay (candidateDate now d) = ct_dayOfWeek ct
                       then [sessionInstance now ct d] else [])
                 [0..<horizon])"

definition expand :: "int \<Rightarrow> ClassTime list \<Rightarrow> UpcomingSession list" where
  "expand now classTimes = concat (map (expandSlot now) classTimes)"


text \<open>
  The pairs of a slot and an offset for which a session is materialised, in the order of
  the expansion: slot by slot in input order, offsets ascending.
\<close>

definition slotDays :: "int \<Rightarrow> ClassTime list \<Rightarrow> (ClassTime \<times> nat) list" where
  "slotDays now classTimes =
     concat (map (\<lambda>ct. concat (map (\<lambda>d. if WeekDay (candidateDate now d) = ct_dayOfWeek ct
                                           then [(ct, d)] else [])
                                     [0..<horizon]))
                 classTimes)"


section \<open>Theorems\<close>

subsection \<open>Pricing\<close>

text \<open>
  Claim C1.  The monthly revenue of a class is its fixed total (0 when absent) under
  \<open>FIXED_TOTAL\<close>, whatever the enrolment, and the per-student price (0 when absent)
  times the enrolled count under \<open>PER_STUDENT\<close>; the dashboard and the teachers
  service compute the same figure.
\<close>

theorem computeMonthlyRevenue_by_mode:
  "estimatedRevenueCents c =
     (case rc_pricingMode c of
        FIXED_TOTAL \<Rightarrow> (case rc_fixedMonthlyPriceCents c of None \<Rightarrow> 0 | Some f \<Rightarrow> f)
      | PER_STUDENT \<Rightarrow> (case rc_monthlyPriceCents c of None \<Rightarrow> 0 | Some p \<Rightarrow> p)
                         * int (length (rc_students c)))
   \<and> baseRevenue k =
     (case cl_pricingMode k of
        FIXED_TOTAL \<Rightarrow> (case cl_fixedMonthlyPriceCents k of None \<Rightarrow> 0 | Some f \<Rightarrow> f)
      | PER_STUDENT \<Rightarrow> (case cl_monthlyPriceCents k of None \<Rightarrow> 0 | Some p \<Rightarrow> p)
                         * int (length (cl_students k)))"
  by (simp add: estimatedRevenueCents_def baseRevenue_def nullish0_def
      rc_studentCount_def cl_studentCount_def split: PricingMode.split)

text \<open>
  Claim C3.  Under \<open>FIXED_TOTAL\<close> the reported effective price per student is the fixed
  total itself (0 when absent) for every list of enrolled students; it is not divided by
  the enrolled count.
\<close>

theorem effectivePrice_fixed_total:
  "cl_pricingMode c = FIXED_TOTAL \<Longrightarrow>
     effectivePricePerStudent (c\<lparr>cl_students := ss\<rparr>) =
       (case cl_fixedMonthlyPriceCents c of None \<Rightarrow> 0 | Some f \<Rightarrow> f)"
  by (simp add: effectivePricePerStudent_def nullish0_def)

theorem effectivePrice_fixed_total_witness:
  "effectivePricePerStudent
     \<lparr>cl_id = ''c1'', cl_name = ''Maths'', cl_pricingMode = FIXED_TOTAL,
      cl_monthlyPriceCents = None, cl_fixedMonthlyPriceCents = Some 20000,
      cl_teacherFixedMonthlyPayCents = None,
      cl_students = [\<lparr>cs_id = ''s1'', cs_user = None\<rparr>, \<lparr>cs_id = ''s2'', cs_user = None\<rparr>],
      cl_studentPriceOverrides = []\<rparr> = 20000
   \<and> 20000 \<noteq> (20000::int) div 2"
  using effectivePrice_fixed_total
    [of "\<lparr>cl_id = ''c1'', cl_name = ''Maths'', cl_pricingMode = FIXED_TOTAL,
          cl_monthlyPriceCents = None, cl_fixedMonthlyPriceCents = Some 20000,
          cl_teacherFixedMonthlyPayCents = None, cl_students = [],
          cl_studentPriceOverrides = []\<rparr>"
        "[\<lparr>cs_id = ''s1'', cs_user = None\<rparr>, \<lparr>cs_id = ''s2'', cs_user = None\<rparr>]"]
  by simp

subsection \<open>Stable sorting\<close>

lemma insertBy_insort_key:
  "(\<And>a b. (cmp a b \<le> 0) = (key a \<le> key b)) \<Longrightarrow> insertBy cmp x ys = insort_key key x ys"
  by (induction ys) auto

lemma sortBy_sort_key:
  "(\<And>a b. (cmp a b \<le> 0) = (key a \<le> key b)) \<Longrightarrow> sortBy cmp xs = sort_key key xs"
  by (induction xs) (auto simp: sortBy_def insertBy_insort_key)

subsection \<open>Top classes\<close>

lemma sortBy_byStudentCountDesc:
  "sortBy byStudentCountDesc xs = sort_key (\<lambda>e. - tc_studentCount e) xs"
  by (rule sortBy_sort_key) (simp add: byStudentCountDesc_def)

text \<open>
  Claim C8.  The top-classes list is the first five entries of the class snapshot sorted
  by descending student count, where the sorted list is a permutation of the entries,
  classes with the same count keep their snapshot order, and each entry carries the
  student count and the revenue given by the pricing rule of its mode.
\<close>

theorem topClasses_top5:
  "topClasses cs = take 5 (sortBy byStudentCountDesc (map topClassEntry cs))
   \<and> mset (sortBy byStudentCountDesc (map topClassEntry cs)) = mset (map topClassEntry cs)
   \<and> sorted_wrt (\<lambda>a b. tc_studentCount a \<ge> tc_studentCount b)
        (sortBy byStudentCountDesc (map topClassEntry cs))
   \<and> (\<forall>n. filter (\<lambda>e. tc_studentCount e = n) (sortBy byStudentCountDesc (map topClassEntry cs))
          = filter (\<lambda>e. tc_studentCount e = n) (map topClassEntry cs))
   \<and> (\<forall>c. tc_studentCount (topClassEntry c) = int (length (rc_students c))
        \<and> tc_estimatedRevenueCents (topClassEntry c) =
            (case rc_pricingMode c of
               FIXED_TOTAL \<Rightarrow> (case rc_fixedMonthlyPriceCents c of None \<Rightarrow> 0 | Some f \<Rightarrow> f)
             | PER_STUDENT \<Rightarrow> (case rc_monthlyPriceCents c of None \<Rightarrow> 0 | Some p \<Rightarrow> p)
                                * int (length (rc_students c))))"
proof -
  let ?ys = "sortBy byStudentCountDesc (map topClassEntry cs)"
  have s: "?ys = sort_key (\<lambda>e. - tc_studentCount e) (map topClassEntry cs)"
    by (rule sortBy_byStudentCountDesc)
  have 1: "topClasses cs = take 5 ?ys" by (simp add: topClasses_def)
  have 2: "mset ?ys = mset (map topClassEntry cs)" unfolding s by simp
  have "sorted (map (\<lambda>e. - tc_studentCount e) ?ys)" unfolding s by (rule sorted_sort_key)
  then have 3: "sorted_wrt (\<lambda>a b. tc_studentCount a \<ge> tc_studentCount b) ?ys"
    by (simp add: sorted_map)
  have 4: "filter (\<lambda>e. tc_studentCount e = n) ?ys
          = filter (\<lambda>e. tc_studentCount e = n) (map topClassEntry cs)" for n
    unfolding s using sort_key_stable [of "\<lambda>e. - tc_studentCount e" "- n" "map topClassEntry cs"]
    by simp
  have 5: "tc_studentCount (topClassEntry c) = int (length (rc_students c))
        \<and> tc_estimatedRevenueCents (topClassEntry c) =
            (case rc_pricingMode c of
               FIXED_TOTAL \<Rightarrow> (case rc_fixedMonthlyPriceCents c of None \<Rightarrow> 0 | Some f \<Rightarrow> f)
             | PER_STUDENT \<Rightarrow> (case rc_monthlyPriceCents c of None \<Rightarrow> 0 | Some p \<Rightarrow> p)
                                * int (length (rc_students c)))" for c
    by (simp add: topClassEntry_def estimatedRevenueCents_def rc_studentCount_def nullish0_def
        split: PricingMode.split)
  from 1 2 3 4 5 show ?thesis by blast
qed

text \<open>
  The example of the specification: a per-student class at 5000 with 3 students and a
  fixed-total class at 20000 with 10 students; the second comes first.
\<close>

theorem topClasses_top5_witness:
  "topClasses
     [\<lparr>rc_id = ''a'', rc_name = ''A'', rc_pricingMode = PER_STUDENT,
       rc_monthlyPriceCents = Some 5000, rc_fixedMonthlyPriceCents = None,
       rc_students = [''s1'', ''s2'', ''s3''], rc_teacher = None\<rparr>,
      \<lparr>rc_id = ''b'', rc_name = ''B'', rc_pricingMode = FIXED_TOTAL,
       rc_monthlyPriceCents = None, rc_fixedMonthlyPriceCents = Some 20000,
       rc_students = [''s1'', ''s2'', ''s3'', ''s4'', ''s5'', ''s6'', ''s7'', ''s8'', ''s9'', ''s10''],
       rc_teacher = None\<rparr>]
   = [\<lparr>tc_id = ''b'', tc_name = ''B'', tc_teacher = None, tc_studentCount = 10,
       tc_pricingMode = FIXED_TOTAL, tc_estimatedRevenueCents = 20000\<rparr>,
      \<lparr>tc_id = ''a'', tc_name = ''A'', tc_teacher = None, tc_studentCount = 3,
       tc_pricingMode = PER_STUDENT, tc_estimatedRevenueCents = 15000\<rparr>]"
  using topClasses_top5
     [of "[\<lparr>rc_id = ''a'', rc_name = ''A'', rc_pricingMode = PER_STUDENT,
       rc_monthlyPriceCents = Some 5000, rc_fixedMonthlyPriceCents = None,
       rc_students = [''s1'', ''s2'', ''s3''], rc_teacher = None\<rparr>,
      \<lparr>rc_id = ''b'', rc_name = ''B'', rc_pricingMode = FIXED_TOTAL,
       rc_monthlyPriceCents = None, rc_fixedMonthlyPriceCents = Some 20000,
       rc_students = [''s1'', ''s2'', ''s3'', ''s4'', ''s5'', ''s6'', ''s7'', ''s8'', ''s9'', ''s10''],
       rc_teacher = None\<rparr>]"]
  by (simp add: sortBy_def byStudentCountDesc_def topClassEntry_def rc_studentCount_def
      estimatedRevenueCents_def nullish0_def rc_teacherName_def)

subsection \<open>Current-month summary\<close>

lemma foldl_add_totals:
  "foldl (\<lambda>(invoiced, paid) inv. (invoiced + f inv, paid + g inv)) (a, b) invs
     = (a + sum_list (map f invs), b + sum_list (map g invs))"
  by (induction invs arbitrary: a b) (auto simp: algebra_simps)

lemma foldl_add_sum: "foldl (\<lambda>s i. s + f i) (a::int) xs = a + sum_list (map f xs)"
  by (induction xs arbitrary: a) (auto simp: algebra_simps)

text \<open>
  Claim C7.  The summary totals are the sums over the items of the month's invoices; the
  remaining amount is invoiced minus paid, unclamped; the payment rate is paid divided by
  invoiced when invoiced is positive and exactly 0 when invoiced is 0, and it is never
  the result of a division by zero.
\<close>

theorem currentMonth_summary:
  "ms_invoicedCents (currentMonth invs) =
      (\<Sum>inv\<leftarrow>invs. \<Sum>i\<leftarrow>inv_items inv. ii_lineTotalCents i)
   \<and> ms_paidCents (currentMonth invs) =
      (\<Sum>inv\<leftarrow>invs. \<Sum>i\<leftarrow>inv_items inv. case ii_paidCents i of None \<Rightarrow> 0 | Some p \<Rightarrow> p)
   \<and> ms_remainingCents (currentMonth invs) =
      ms_invoicedCents (currentMonth invs) - ms_paidCents (currentMonth invs)
   \<and> (ms_invoicedCents (currentMonth invs) > 0 \<longrightarrow>
        ms_paymentRate (currentMonth invs) =
          Some (of_int (ms_paidCents (currentMonth invs))
                 / of_int (ms_invoicedCents (currentMonth invs))))
   \<and> (ms_invoicedCents (currentMonth invs) = 0 \<longrightarrow> ms_paymentRate (currentMonth invs) = Some 0)
   \<and> ms_paymentRate (currentMonth invs) \<noteq> None"
  by (simp add: currentMonth_def currentMonthTotals_def foldl_add_totals sumLineTotal_def
      sumPaid_def foldl_add_sum jsDivide_def nullish0_def Let_def)

text \<open>
  An overpaid month (1000 invoiced, 1500 paid) has the negative remainder -500 and the
  rate 3/2; a month without invoices has the rate 0.
\<close>

theorem currentMonth_summary_witness:
  "ms_remainingCents (currentMonth
      [\<lparr>inv_id = ''i1'', inv_status = ''PAID'',
        inv_items = [\<lparr>ii_billedMonth = 0, ii_lineTotalCents = 1000, ii_paidCents = Some 1500\<rparr>]\<rparr>])
     = - 500
   \<and> ms_paymentRate (currentMonth
      [\<lparr>inv_id = ''i1'', inv_status = ''PAID'',
        inv_items = [\<lparr>ii_billedMonth = 0, ii_lineTotalCents = 1000, ii_paidCents = Some 1500\<rparr>]\<rparr>])
     = Some (3 / 2)
   \<and> ms_paymentRate (currentMonth []) = Some 0"
  using currentMonth_summary
     [of "[\<lparr>inv_id = ''i1'', inv_status = ''PAID'',
        inv_items = [\<lparr>ii_billedMonth = 0, ii_lineTotalCents = 1000, ii_paidCents = Some 1500\<rparr>]\<rparr>]"]
    currentMonth_summary [of "[]"]
  by simp

subsection \<open>Students by level\<close>









lemma unassigned_not_inherited: "''Unassigned'' \<notin> set objectPrototypeKeys"
  by (simp add: objectPrototypeKeys_def)







subsection \<open>The calendar\<close>

lemma div_succ:
  fixes z n :: int
  assumes "0 < n"
  shows "(z + 1) div n = z div n + (if (z + 1) mod n = 0 then 1 else 0)"
proof -
  define q where "q = z div n"
  define r where "r = z mod n"
  have z: "z = n * q + r" by (simp add: q_def r_def)
  have r: "0 \<le> r" "r < n" using assms by (simp_all add: r_def)
  show ?thesis
  proof (cases "r = n - 1")
    case True
    then have e: "z + 1 = n * (q + 1) + 0" using z by (simp add: algebra_simps)
    have "(z + 1) div n = q + 1" using assms by (intro int_div_pos_eq [OF e]) simp_all
    moreover have "(z + 1) mod n = 0" using assms by (intro int_mod_pos_eq [OF e]) simp_all
    ultimately show ?thesis by (simp add: q_def)
  next
    case False
    then have r1: "0 \<le> r + 1" "r + 1 < n" using r by simp_all
    have e: "z + 1 = n * q + (r + 1)" using z by simp
    have "(z + 1) div n = q" by (rule int_div_pos_eq [OF e r1])
    moreover have "(z + 1) mod n = r + 1" by (rule int_mod_pos_eq [OF e r1])
    ultimately show ?thesis using r by (simp add: q_def)
  qed
qed

lemma mod4_shift: "((y - 1968) mod 4 = 0) = (y mod 4 = 0)" for y :: int
  using mod_mult_self2 [of y 4 "- 492"] by simp
lemma mod100_shift: "((y - 1900) mod 100 = 0) = (y mod 100 = 0)" for y :: int
  using mod_mult_self2 [of y 100 "- 19"] by simp
lemma mod400_shift: "((y - 1600) mod 400 = 0) = (y mod 400 = 0)" for y :: int
  using mod_mult_self2 [of y 400 "- 4"] by simp
lemma leap_divisors: "y mod 400 = 0 \<Longrightarrow> y mod 100 = 0" "y mod 100 = 0 \<Longrightarrow> y mod 4 = 0" for y :: int
  by (auto simp: mod_eq_0_iff_dvd elim!: dvdE)

lemma DayFromYear_Suc: "DayFromYear (y + 1) = DayFromYear y + DaysInYear y"
proof -
  have a: "(y + 1 - 1969) div 4 = (y - 1969) div 4 + (if y mod 4 = 0 then 1 else 0)"
    using div_succ [of 4 "y - 1969"] mod4_shift [of y] by (simp add: algebra_simps)
  have b: "(y + 1 - 1901) div 100 = (y - 1901) div 100 + (if y mod 100 = 0 then 1 else 0)"
    using div_succ [of 100 "y - 1901"] mod100_shift [of y] by (simp add: algebra_simps)
  have c: "(y + 1 - 1601) div 400 = (y - 1601) div 400 + (if y mod 400 = 0 then 1 else 0)"
    using div_succ [of 400 "y - 1601"] mod400_shift [of y] by (simp add: algebra_simps)
  show ?thesis
    unfolding DayFromYear_def DaysInYear_def a b c using leap_divisors [of y] by auto
qed

lemma div_bounds:
  fixes x n :: int
  assumes "0 < n"
  shows "n * (x div n) \<le> x \<and> x < n * (x div n) + n"
proof -
  have "x = n * (x div n) + x mod n" by simp
  moreover have "0 \<le> x mod n" "x mod n < n" using assms by simp_all
  ultimately show ?thesis by linarith
qed

lemma DayFromYear_quotients:
  obtains a b c where
    "DayFromYear y = 365 * (y - 1970) + a - b + c"
    "4 * a \<le> y - 1969" "y - 1969 \<le> 4 * a + 3"
    "100 * b \<le> y - 1901" "y - 1901 \<le> 100 * b + 99"
    "400 * c \<le> y - 1601" "y - 1601 \<le> 400 * c + 399"
proof
  show "DayFromYear y = 365 * (y - 1970) + (y - 1969) div 4 - (y - 1901) div 100 + (y - 1601) div 400"
    by (simp add: DayFromYear_def)
  show "4 * ((y - 1969) div 4) \<le> y - 1969" "y - 1969 \<le> 4 * ((y - 1969) div 4) + 3"
    using div_bounds [of 4 "y - 1969"] by simp_all
  show "100 * ((y - 1901) div 100) \<le> y - 1901" "y - 1901 \<le> 100 * ((y - 1901) div 100) + 99"
    using div_bounds [of 100 "y - 1901"] by simp_all
  show "400 * ((y - 1601) div 400) \<le> y - 1601" "y - 1601 \<le> 400 * ((y - 1601) div 400) + 399"
    using div_bounds [of 400 "y - 1601"] by simp_all
qed

lemma DayFromYear_upper: "400 * DayFromYear y \<le> 146097 * (y - 1970) + 589"
proof -
  obtain a b c where
    "DayFromYear y = 365 * (y - 1970) + a - b + c"
    "4 * a \<le> y - 1969" "y - 1969 \<le> 4 * a + 3"
    "100 * b \<le> y - 1901" "y - 1901 \<le> 100 * b + 99"
    "400 * c \<le> y - 1601" "y - 1601 \<le> 400 * c + 399"
    by (rule DayFromYear_quotients)
  then show ?thesis by (simp add: algebra_simps)
qed

lemma DayFromYear_lower: "146097 * (y - 1970) - 506 \<le> 400 * DayFromYear y"
proof -
  obtain a b c where
    "DayFromYear y = 365 * (y - 1970) + a - b + c"
    "4 * a \<le> y - 1969" "y - 1969 \<le> 4 * a + 3"
    "100 * b \<le> y - 1901" "y - 1901 \<le> 100 * b + 99"
    "400 * c \<le> y - 1601" "y - 1601 \<le> 400 * c + 399"
    by (rule DayFromYear_quotients)
  then show ?thesis by (simp add: algebra_simps)
qed


lemma DaysInYear_cases: "DaysInYear y = 365 \<or> DaysInYear y = 366"
  by (simp add: DaysInYear_def)

lemma DayFromYear_mono_aux: "0 \<le> k \<Longrightarrow> DayFromYear y + 365 * k \<le> DayFromYear (y + k)"
proof (induction k rule: int_ge_induct)
  case base
  then show ?case by simp
next
  case (step i)
  have "DayFromYear (y + (i + 1)) = DayFromYear (y + i) + DaysInYear (y + i)"
    using DayFromYear_Suc [of "y + i"] by (simp add: add.assoc)
  with step DaysInYear_cases [of "y + i"] show ?case by auto
qed

lemma DayFromYear_strict_mono: "y < z \<Longrightarrow> DayFromYear y < DayFromYear z"
  using DayFromYear_mono_aux [of "z - y" y] by simp

lemma DayFromYear_mono: "y \<le> z \<Longrightarrow> DayFromYear y \<le> DayFromYear z"
  using DayFromYear_mono_aux [of "z - y" y] by simp

lemma YearFromTime_bounds:
  "DayFromYear (YearFromTime t) \<le> Day t \<and> Day t < DayFromYear (YearFromTime t + 1)"
proof -
  define d where "d = Day t"
  define y where "y = 1970 + (400 * d) div 146097"
  have "146097 * ((400 * d) div 146097) \<le> 400 * d
      \<and> 400 * d < 146097 * ((400 * d) div 146097) + 146097"
    by (rule div_bounds) simp
  then have e1: "146097 * (y - 1970) \<le> 400 * d" and e2: "400 * d < 146097 * (y - 1970) + 146097"
    by (simp_all add: y_def)
  have u1: "400 * DayFromYear (y - 1) \<le> 146097 * (y - 1 - 1970) + 589"
    by (rule DayFromYear_upper)
  have l2: "146097 * (y + 2 - 1970) - 506 \<le> 400 * DayFromYear (y + 2)"
    by (rule DayFromYear_lower)
  have a: "DayFromYear (y - 1) \<le> d" using u1 e1 by (simp add: algebra_simps)
  have b: "d < DayFromYear (y + 2)" using l2 e2 by (simp add: algebra_simps)
  have eq: "YearFromTime t =
     (if d < DayFromYear y then y - 1 else if DayFromYear (y + 1) \<le> d then y + 1 else y)"
    by (simp add: YearFromTime_def Let_def d_def y_def)
  show ?thesis
    unfolding eq d_def [symmetric] using a b by (auto simp: add.commute)
qed

lemma YearFromTime_unique:
  assumes "DayFromYear y \<le> Day t" and "Day t < DayFromYear (y + 1)"
  shows "YearFromTime t = y"
proof (rule ccontr)
  assume ne: "YearFromTime t \<noteq> y"
  let ?Y = "YearFromTime t"
  from YearFromTime_bounds [of t]
  have b: "DayFromYear ?Y \<le> Day t" "Day t < DayFromYear (?Y + 1)" by simp_all
  from ne consider "?Y < y" | "y < ?Y" by linarith
  then show False
  proof cases
    case 1
    then have "DayFromYear (?Y + 1) \<le> DayFromYear y" by (intro DayFromYear_mono) simp
    with b assms show False by linarith
  next
    case 2
    then have "DayFromYear (y + 1) \<le> DayFromYear ?Y" by (intro DayFromYear_mono) simp
    with b assms show False by linarith
  qed
qed

lemma DayWithinYear_range:
  "0 \<le> DayWithinYear t \<and> DayWithinYear t < DaysInYear (YearFromTime t)"
  using YearFromTime_bounds [of t] DayFromYear_Suc [of "YearFromTime t"]
  by (simp add: DayWithinYear_def)

lemma InLeapYear_cases: "InLeapYear t = 0 \<or> InLeapYear t = 1"
  by (simp add: InLeapYear_def)

lemma DayWithinYear_leap_range:
  "0 \<le> DayWithinYear t \<and> DayWithinYear t < 365 + InLeapYear t"
  using DayWithinYear_range [of t] DaysInYear_cases [of "YearFromTime t"]
  by (auto simp: InLeapYear_def)

lemma MonthFromTime_range: "0 \<le> MonthFromTime t \<and> MonthFromTime t \<le> 11"
  by (simp add: MonthFromTime_def Let_def)

lemma Day_decompose:
  "Day t = DayFromYear (YearFromTime t)
            + daysBeforeMonth (MonthFromTime t) (InLeapYear t) + DateFromTime t - 1"
  by (simp add: DateFromTime_def MonthFromTime_def daysBeforeMonth_def DayWithinYear_def Let_def)

lemma MakeDay_roundtrip:
  "MakeDay (YearFromTime t) (MonthFromTime t) (DateFromTime t + k) = Day t + k"
proof -
  have m: "MonthFromTime t div 12 = 0" "MonthFromTime t mod 12 = MonthFromTime t"
    using MonthFromTime_range [of t] by auto
  show ?thesis
    unfolding MakeDay_def Let_def m using Day_decompose [of t]
    by (simp add: InLeapYear_def)
qed

lemma Day_MakeDate: "Day (MakeDate d 0) = d"
  by (simp add: Day_def MakeDate_def msPerDay_def)

lemma daysBeforeMonth_range:
  "0 \<le> l \<Longrightarrow> l \<le> 1 \<Longrightarrow> 0 \<le> daysBeforeMonth mn l \<and> daysBeforeMonth mn l \<le> 334 + l"
  by (simp add: daysBeforeMonth_def)

lemma first_of_month:
  assumes mn: "0 \<le> mn" "mn \<le> 11"
    and d: "Day t = DayFromYear y + daysBeforeMonth mn (if DaysInYear y = 366 then 1 else 0)"
  shows "YearFromTime t = y \<and> MonthFromTime t = mn \<and> DateFromTime t = 1"
proof -
  define l :: int where "l = (if DaysInYear y = 366 then 1 else 0)"
  have l: "0 \<le> l" "l \<le> 1" by (simp_all add: l_def)
  have dy: "DaysInYear y = 365 + l" using DaysInYear_cases [of y] by (auto simp: l_def)
  have r: "0 \<le> daysBeforeMonth mn l" "daysBeforeMonth mn l \<le> 334 + l"
    using daysBeforeMonth_range [OF l, of mn] by simp_all
  have d': "Day t = DayFromYear y + daysBeforeMonth mn l"
    unfolding l_def by (rule d)
  have Y: "YearFromTime t = y"
  proof (rule YearFromTime_unique)
    show "DayFromYear y \<le> Day t" using d' r by linarith
    show "Day t < DayFromYear (y + 1)"
      unfolding DayFromYear_Suc using d' r dy by linarith
  qed
  have L: "InLeapYear t = l" unfolding InLeapYear_def Y l_def by (rule refl)
  have W: "DayWithinYear t = daysBeforeMonth mn l"
    unfolding DayWithinYear_def Y using d' by linarith
  from mn have "mn = 0 \<or> mn = 1 \<or> mn = 2 \<or> mn = 3 \<or> mn = 4 \<or> mn = 5 \<or> mn = 6
    \<or> mn = 7 \<or> mn = 8 \<or> mn = 9 \<or> mn = 10 \<or> mn = 11" by presburger
  then consider "mn = 0" | "mn = 1" | "mn = 2" | "mn = 3" | "mn = 4" | "mn = 5" | "mn = 6"
    | "mn = 7" | "mn = 8" | "mn = 9" | "mn = 10" | "mn = 11" by blast
  then have M: "MonthFromTime t = mn \<and> DateFromTime t = 1"
  proof cases
    case 1 then show ?thesis using l by (simp add: MonthFromTime_def DateFromTime_def W L daysBeforeMonth_def)
  next
    case 2 then show ?thesis using l by (simp add: MonthFromTime_def DateFromTime_def W L daysBeforeMonth_def)
  next
    case 3 then show ?thesis using l by (simp add: MonthFromTime_def DateFromTime_def W L daysBeforeMonth_def)
  next
    case 4 then show ?thesis using l by (simp add: MonthFromTime_def DateFromTime_def W L daysBeforeMonth_def)
  next
    case 5 then show ?thesis using l by (simp add: MonthFromTime_def DateFromTime_def W L daysBeforeMonth_def)
  next
    case 6 then show ?thesis using l by (simp add: MonthFromTime_def DateFromTime_def W L daysBeforeMonth_def)
  next
    case 7 then show ?thesis using l by (simp add: MonthFromTime_def DateFromTime_def W L daysBeforeMonth_def)
  next
    case 8 then show ?thesis using l by (simp add: MonthFromTime_def DateFromTime_def W L daysBeforeMonth_def)
  next
    case 9 then show ?thesis using l by (simp add: MonthFromTime_def DateFromTime_def W L daysBeforeMonth_def)
  next
    case 10 then show ?thesis using l by (simp add: MonthFromTime_def DateFromTime_def W L daysBeforeMonth_def)
  next
    case 11 then show ?thesis using l by (simp add: MonthFromTime_def DateFromTime_def W L daysBeforeMonth_def)
  next
    case 12 then show ?thesis using l by (simp add: MonthFromTime_def DateFromTime_def W L daysBeforeMonth_def)
  qed
  with Y show ?thesis by simp
qed

lemma YearFromTime_ge_1970: "0 \<le> t \<Longrightarrow> 1970 \<le> YearFromTime t"
proof (rule ccontr)
  assume t: "0 \<le> t" and "\<not> 1970 \<le> YearFromTime t"
  then have "YearFromTime t + 1 \<le> 1970" by simp
  then have "DayFromYear (YearFromTime t + 1) \<le> DayFromYear 1970" by (rule DayFromYear_mono)
  moreover have "DayFromYear 1970 = 0" by (simp add: DayFromYear_def)
  moreover have "0 \<le> Day t" using t by (simp add: Day_def msPerDay_def)
  ultimately show False using YearFromTime_bounds [of t] by linarith
qed

lemma MakeDay_first_of_month:
  "YearFromTime (MakeDate (MakeDay y m 1) 0) = y + m div 12
   \<and> MonthFromTime (MakeDate (MakeDay y m 1) 0) = m mod 12
   \<and> DateFromTime (MakeDate (MakeDay y m 1) 0) = 1"
  by (rule first_of_month) (simp_all add: Day_MakeDate MakeDay_def Let_def)

subsection \<open>Monthly revenue trend\<close>

lemma addItem_apply:
  "addItem m item k =
     (if k = monthKey (Some (ii_billedMonth item))
      then Some \<lparr>mt_invoicedCents =
                   orZero (map_option mt_invoicedCents (m k)) + ii_lineTotalCents item,
                 mt_paidCents = orZero (map_option mt_paidCents (m k)) + nullish0 (ii_paidCents item)\<rparr>
      else m k)"
  by (simp add: addItem_def Let_def orZero_def split: option.split)

lemma foldl_addItem_invoiced:
  "orZero (map_option mt_invoicedCents (foldl addItem m items k)) =
     orZero (map_option mt_invoicedCents (m k))
       + (\<Sum>item\<leftarrow>filter (\<lambda>item. monthKey (Some (ii_billedMonth item)) = k) items.
            ii_lineTotalCents item)"
proof (induction items arbitrary: m)
  case Nil
  then show ?case by simp
next
  case (Cons item items)
  show ?case
    unfolding foldl_Cons Cons.IH
    by (simp add: addItem_apply orZero_def)
qed

lemma foldl_addItem_paid:
  "orZero (map_option mt_paidCents (foldl addItem m items k)) =
     orZero (map_option mt_paidCents (m k))
       + (\<Sum>item\<leftarrow>filter (\<lambda>item. monthKey (Some (ii_billedMonth item)) = k) items.
            nullish0 (ii_paidCents item))"
proof (induction items arbitrary: m)
  case Nil
  then show ?case by simp
next
  case (Cons item items)
  show ?case
    unfolding foldl_Cons Cons.IH
    by (simp add: addItem_apply orZero_def)
qed

lemma monthLoop_eq:
  "monthLoop now monthMap i acc = acc @ map (monthBucket now monthMap) (rev [0..i])"
proof (induction now monthMap i acc rule: monthLoop.induct)
  case (1 now monthMap i acc)
  show ?case
  proof (cases "i \<ge> 0")
    case True
    then have u: "[0..i] = [0..i - 1] @ [i]" by (simp add: upto_rec2)
    have "monthLoop now monthMap i acc = monthLoop now monthMap (i - 1) (acc @ [monthBucket now monthMap i])"
      using True by (subst monthLoop.simps) simp
    also have "\<dots> = (acc @ [monthBucket now monthMap i]) @ map (monthBucket now monthMap) (rev [0..i - 1])"
      using True by (rule "1.IH")
    finally show ?thesis by (simp add: u)
  next
    case False
    then have "monthLoop now monthMap i acc = acc"
      by (subst monthLoop.simps) simp
    with False show ?thesis by simp
  qed
qed

lemma Day_mult_le: "Day t * msPerDay \<le> t"
  using div_bounds [of 86400000 t] by (simp add: Day_def msPerDay_def algebra_simps)

lemma MakeTime_zero: "MakeTime 0 0 0 0 = 0"
  by (simp add: MakeTime_def)

lemma DateUTC_month:
  assumes c: "clockInRange now" and i: "0 \<le> i" "i \<le> 5"
  shows "\<exists>t. DateUTC (YearFromTime now) (MonthFromTime now - i) 1 = Some t
           \<and> YearFromTime t = YearFromTime now + (MonthFromTime now - i) div 12
           \<and> MonthFromTime t = (MonthFromTime now - i) mod 12"
proof -
  define Y where "Y = YearFromTime now"
  define M where "M = MonthFromTime now - i"
  define ym where "ym = Y + M div 12"
  define l :: int where "l = (if DaysInYear ym = 366 then 1 else 0)"
  define t where "t = MakeDate (MakeDay Y M 1) 0"
  have now: "0 \<le> now" "now \<le> 8000000000000000" using c by (simp_all add: clockInRange_def)
  have Y: "1970 \<le> Y" unfolding Y_def using now by (intro YearFromTime_ge_1970)
  have Mr: "- 5 \<le> M" "M \<le> 11" using MonthFromTime_range [of now] i by (simp_all add: M_def)
  then have "M div 12 = - 1 \<or> M div 12 = 0" by presburger
  then have ym: "Y - 1 \<le> ym" "ym \<le> Y" by (auto simp: ym_def)
  have l: "0 \<le> l" "l \<le> 1" by (simp_all add: l_def)
  have md: "MakeDay Y M 1 = DayFromYear ym + daysBeforeMonth (M mod 12) l"
    by (simp add: MakeDay_def Let_def ym_def l_def)
  have r: "0 \<le> daysBeforeMonth (M mod 12) l" "daysBeforeMonth (M mod 12) l \<le> 334 + l"
    using daysBeforeMonth_range [OF l, of "M mod 12"] by simp_all
  have "DayFromYear 1969 \<le> DayFromYear ym" using Y ym by (intro DayFromYear_mono) simp
  moreover have "DayFromYear 1969 = - 365" by (simp add: DayFromYear_def)
  ultimately have lo: "- 365 \<le> MakeDay Y M 1" using md r by linarith
  have "DayFromYear ym \<le> DayFromYear Y" using ym by (intro DayFromYear_mono)
  moreover have "DayFromYear Y \<le> Day now" unfolding Y_def using YearFromTime_bounds [of now] by simp
  ultimately have hi: "MakeDay Y M 1 \<le> Day now + 335" using md r l by linarith
  have dn: "Day now * msPerDay \<le> now" by (rule Day_mult_le)
  have t_eq: "t = MakeDay Y M 1 * msPerDay" by (simp add: t_def MakeDate_def)
  have "- 365 * msPerDay \<le> t" unfolding t_eq using lo by (simp add: msPerDay_def)
  moreover have "t \<le> (Day now + 335) * msPerDay"
    unfolding t_eq using hi by (simp add: msPerDay_def)
  ultimately have tr: "- 8640000000000000 \<le> t" "t \<le> 8640000000000000"
    using dn now by (simp_all add: msPerDay_def algebra_simps)
  have noquirk: "(0 \<le> Y \<and> Y \<le> 99) = False" using Y by simp
  have "DateUTC Y M 1 = TimeClip t"
    by (simp add: DateUTC_def MakeTime_zero t_def Let_def noquirk)
  also have "\<dots> = Some t" using tr by (simp add: TimeClip_def)
  finally have 1: "DateUTC Y M 1 = Some t" .
  have 2: "YearFromTime t = Y + M div 12 \<and> MonthFromTime t = M mod 12"
    unfolding t_def using MakeDay_first_of_month [of Y M] by simp
  from 1 2 show ?thesis unfolding Y_def M_def by blast
qed

lemma monthBucket_eq:
  assumes "clockInRange now" and "0 \<le> i" "i \<le> 5"
  shows "monthBucket now (buildMonthMap items) i =
     (let k = monthKeyOf (YearFromTime now + (MonthFromTime now - i) div 12)
                ((MonthFromTime now - i) mod 12)
      in \<lparr>mb_month = k,
          mb_invoicedCents =
            (\<Sum>item\<leftarrow>filter (\<lambda>item. monthKey (Some (ii_billedMonth item)) = k) items.
               ii_lineTotalCents item),
          mb_paidCents =
            (\<Sum>item\<leftarrow>filter (\<lambda>item. monthKey (Some (ii_billedMonth item)) = k) items.
               nullish0 (ii_paidCents item))\<rparr>)"
proof -
  obtain t where t: "DateUTC (YearFromTime now) (MonthFromTime now - i) 1 = Some t"
    "YearFromTime t = YearFromTime now + (MonthFromTime now - i) div 12"
    "MonthFromTime t = (MonthFromTime now - i) mod 12"
    using DateUTC_month [OF assms] by blast
  show ?thesis
    unfolding monthBucket_def t(1) Let_def buildMonthMap_def
      foldl_addItem_invoiced foldl_addItem_paid
    by (simp add: monthKey_def t(2,3) orZero_def)
qed

lemma upto_0_5: "rev [0..5::int] = [5, 4, 3, 2, 1, 0]"
  by code_simp

text \<open>
  Claim C4.  For a clock in range and every list of invoice items, the monthly revenue
  trend has exactly 6 buckets; they are the six months ending with the month of the
  reference instant, oldest first (the month \<open>i\<close> months back, for \<open>i\<close> from 5 down to
  0, with the year adjusted), so that the last bucket is the month of the reference
  instant; each bucket holds the sums of the line totals and of the paid amounts (0 when
  absent) of the items with its month key, hence 0 and 0 for a month without items.
\<close>

theorem monthlyRevenue_six_months:
  assumes "clockInRange now"
  shows "length (monthlyRevenue now items) = 6
   \<and> monthlyRevenue now items =
       map (\<lambda>i. let k = monthKeyOf (YearFromTime now + (MonthFromTime now - i) div 12)
                          ((MonthFromTime now - i) mod 12)
                in \<lparr>mb_month = k,
                    mb_invoicedCents =
                      (\<Sum>item\<leftarrow>filter (\<lambda>item. monthKey (Some (ii_billedMonth item)) = k) items.
                         ii_lineTotalCents item),
                    mb_paidCents =
                      (\<Sum>item\<leftarrow>filter (\<lambda>item. monthKey (Some (ii_billedMonth item)) = k) items.
                         case ii_paidCents item of None \<Rightarrow> 0 | Some p \<Rightarrow> p)\<rparr>)
           [5, 4, 3, 2, 1, 0]
   \<and> mb_month (last (monthlyRevenue now items)) = monthKey (Some now)"
proof -
  have m: "MonthFromTime now div 12 = 0" "MonthFromTime now mod 12 = MonthFromTime now"
    using MonthFromTime_range [of now] by auto
  have e: "monthlyRevenue now items = map (monthBucket now (buildMonthMap items)) [5, 4, 3, 2, 1, 0]"
    by (simp add: monthlyRevenue_def monthLoop_eq upto_0_5)
  have 1: "length (monthlyRevenue now items) = 6" by (simp add: e)
  have 2: "monthlyRevenue now items =
       map (\<lambda>i. let k = monthKeyOf (YearFromTime now + (MonthFromTime now - i) div 12)
                          ((MonthFromTime now - i) mod 12)
                in \<lparr>mb_month = k,
                    mb_invoicedCents =
                      (\<Sum>item\<leftarrow>filter (\<lambda>item. monthKey (Some (ii_billedMonth item)) = k) items.
                         ii_lineTotalCents item),
                    mb_paidCents =
                      (\<Sum>item\<leftarrow>filter (\<lambda>item. monthKey (Some (ii_billedMonth item)) = k) items.
                         case ii_paidCents item of None \<Rightarrow> 0 | Some p \<Rightarrow> p)\<rparr>)
           [5, 4, 3, 2, 1, 0]"
    unfolding e using assms by (simp add: monthBucket_eq nullish0_def)
  have "last (monthlyRevenue now items) = monthBucket now (buildMonthMap items) 0"
    by (simp add: e)
  moreover have "mb_month (monthBucket now (buildMonthMap items) 0) = monthKey (Some now)"
    using assms by (simp add: monthBucket_eq Let_def monthKey_def m)
  ultimately have 3: "mb_month (last (monthlyRevenue now items)) = monthKey (Some now)" by simp
  from 1 2 3 show ?thesis by blast
qed

text \<open>
  On 2 November 2025 the empty item list gives the six all-zero buckets from June to
  November 2025, and two items billed in November (1000 with 400 paid, 500 with 500
  paid) give 1500 and 900 in the last bucket.
\<close>

theorem monthlyRevenue_six_months_witness:
  "clockInRange 1762086896789
   \<and> length (monthlyRevenue 1762086896789 []) = 6
   \<and> monthlyRevenue 1762086896789 [] =
       [\<lparr>mb_month = ''2025-06'', mb_invoicedCents = 0, mb_paidCents = 0\<rparr>,
        \<lparr>mb_month = ''2025-07'', mb_invoicedCents = 0, mb_paidCents = 0\<rparr>,
        \<lparr>mb_month = ''2025-08'', mb_invoicedCents = 0, mb_paidCents = 0\<rparr>,
        \<lparr>mb_month = ''2025-09'', mb_invoicedCents = 0, mb_paidCents = 0\<rparr>,
        \<lparr>mb_month = ''2025-10'', mb_invoicedCents = 0, mb_paidCents = 0\<rparr>,
        \<lparr>mb_month = ''2025-11'', mb_invoicedCents = 0, mb_paidCents = 0\<rparr>]
   \<and> monthlyRevenue 1762086896789
        [\<lparr>ii_billedMonth = 1761955200000, ii_lineTotalCents = 1000, ii_paidCents = Some 400\<rparr>,
         \<lparr>ii_billedMonth = 1761955200000, ii_lineTotalCents = 500, ii_paidCents = Some 500\<rparr>] =
       [\<lparr>mb_month = ''2025-06'', mb_invoicedCents = 0, mb_paidCents = 0\<rparr>,
        \<lparr>mb_month = ''2025-07'', mb_invoicedCents = 0, mb_paidCents = 0\<rparr>,
        \<lparr>mb_month = ''2025-08'', mb_invoicedCents = 0, mb_paidCents = 0\<rparr>,
        \<lparr>mb_month = ''2025-09'', mb_invoicedCents = 0, mb_paidCents = 0\<rparr>,
        \<lparr>mb_month = ''2025-10'', mb_invoicedCents = 0, mb_paidCents = 0\<rparr>,
        \<lparr>mb_month = ''2025-11'', mb_invoicedCents = 1500, mb_paidCents = 900\<rparr>]"
proof -
  have c: "clockInRange 1762086896789" by (simp add: clockInRange_def)
  have l: "length (monthlyRevenue 1762086896789 []) = 6"
    using monthlyRevenue_six_months [OF c, of "[]"] by blast
  have e: "monthlyRevenue 1762086896789 [] =
       [\<lparr>mb_month = ''2025-06'', mb_invoicedCents = 0, mb_paidCents = 0\<rparr>,
        \<lparr>mb_month = ''2025-07'', mb_invoicedCents = 0, mb_paidCents = 0\<rparr>,
        \<lparr>mb_month = ''2025-08'', mb_invoicedCents = 0, mb_paidCents = 0\<rparr>,
        \<lparr>mb_month = ''2025-09'', mb_invoicedCents = 0, mb_paidCents = 0\<rparr>,
        \<lparr>mb_month = ''2025-10'', mb_invoicedCents = 0, mb_paidCents = 0\<rparr>,
        \<lparr>mb_month = ''2025-11'', mb_invoicedCents = 0, mb_paidCents = 0\<rparr>]"
    by code_simp
  have f: "monthlyRevenue 1762086896789
        [\<lparr>ii_billedMonth = 1761955200000, ii_lineTotalCents = 1000, ii_paidCents = Some 400\<rparr>,
         \<lparr>ii_billedMonth = 1761955200000, ii_lineTotalCents = 500, ii_paidCents = Some 500\<rparr>] =
       [\<lparr>mb_month = ''2025-06'', mb_invoicedCents = 0, mb_paidCents = 0\<rparr>,
        \<lparr>mb_month = ''2025-07'', mb_invoicedCents = 0, mb_paidCents = 0\<rparr>,
        \<lparr>mb_month = ''2025-08'', mb_invoicedCents = 0, mb_paidCents = 0\<rparr>,
        \<lparr>mb_month = ''2025-09'', mb_invoicedCents = 0, mb_paidCents = 0\<rparr>,
        \<lparr>mb_month = ''2025-10'', mb_invoicedCents = 0, mb_paidCents = 0\<rparr>,
        \<lparr>mb_month = ''2025-11'', mb_invoicedCents = 1500, mb_paidCents = 900\<rparr>]"
    by code_simp
  from c l e f show ?thesis by blast
qed

subsection \<open>Schedule expansion\<close>

lemma candidateDate_eq: "candidateDate now d = (Day now + int d) * msPerDay"
  by (simp add: candidateDate_def MakeDate_def)

lemma Day_candidateDate: "Day (candidateDate now d) = Day now + int d"
  by (simp add: candidateDate_def Day_MakeDate)

lemma HourFromTime_candidateDate: "HourFromTime (candidateDate now d) = 0"
proof -
  have "(Day now + int d) * 86400000 = ((Day now + int d) * 24) * 3600000" by simp
  then have "(Day now + int d) * 86400000 div 3600000 = (Day now + int d) * 24"
    by (metis nonzero_mult_div_cancel_right zero_neq_numeral)
  then show ?thesis
    by (simp add: HourFromTime_def candidateDate_eq msPerDay_def msPerHour_def)
qed

lemma candidateDate_range:
  assumes "clockInRange now" and "d < 7"
  shows "0 \<le> candidateDate now d \<and> candidateDate now d \<le> 8000000604800000"
proof -
  have now: "0 \<le> now" "now \<le> 8000000000000000" using assms by (simp_all add: clockInRange_def)
  have dn: "Day now * msPerDay \<le> now" by (rule Day_mult_le)
  have d0: "0 \<le> Day now" using now by (simp add: Day_def msPerDay_def)
  have "int d \<le> 7" using assms by simp
  then have "int d * 86400000 \<le> 604800000" by simp
  moreover have "0 \<le> (Day now + int d) * 86400000" using d0 by simp
  ultimately show ?thesis
    using dn now by (simp add: candidateDate_eq msPerDay_def algebra_simps)
qed

lemma DateUTC_offset:
  assumes "clockInRange now" and "d < 7"
  shows "DateUTC (YearFromTime now) (MonthFromTime now) (DateFromTime now + int d)
           = Some (candidateDate now d)"
proof -
  have "0 \<le> now" using assms by (simp add: clockInRange_def)
  then have "1970 \<le> YearFromTime now" by (rule YearFromTime_ge_1970)
  then have q: "(0 \<le> YearFromTime now \<and> YearFromTime now \<le> 99) = False" by simp
  have "DateUTC (YearFromTime now) (MonthFromTime now) (DateFromTime now + int d)
          = TimeClip (candidateDate now d)"
    by (simp add: DateUTC_def q MakeDay_roundtrip MakeTime_zero candidateDate_def)
  also have "\<dots> = Some (candidateDate now d)"
    using candidateDate_range [OF assms] by (simp add: TimeClip_def)
  finally show ?thesis .
qed

lemma setUTCMinutes_candidateDate:
  "setUTCMinutes (candidateDate now d) m = TimeClip (candidateDate now d + m * msPerMinute)"
proof -
  have "MakeDate (Day now + int d) (m * msPerMinute) = candidateDate now d + m * msPerMinute"
    by (simp add: MakeDate_def candidateDate_eq)
  then show ?thesis
    by (simp add: setUTCMinutes_def Day_candidateDate HourFromTime_candidateDate MakeTime_def)
qed

lemma TimeClip_minutes:
  assumes "clockInRange now" and "d < 7" and "int32 m"
  shows "TimeClip (candidateDate now d + m * msPerMinute)
           = Some (candidateDate now d + m * msPerMinute)"
proof -
  have m: "- 2147483648 \<le> m" "m \<le> 2147483647" using assms by (simp_all add: int32_def)
  have c: "0 \<le> candidateDate now d" "candidateDate now d \<le> 8000000604800000"
    using candidateDate_range [OF assms(1,2)] by simp_all
  have "\<bar>candidateDate now d + m * 60000\<bar> \<le> 8640000000000000"
    using m c by linarith
  then show ?thesis
    by (simp add: TimeClip_def msPerMinute_def)
qed

lemma digitChar_code: "d < 10 \<Longrightarrow> (of_char (digitChar d) :: nat) = 48 + d"
  by (simp add: digitChar_def)

lemma showNat_chars: "set (showNat n) \<subseteq> {c. (of_char c :: nat) < 64}"
proof (induction n rule: showNat.induct)
  case (1 n)
  show ?case
  proof (cases "n < 10")
    case True
    then have "showNat n = [digitChar n]" by (subst showNat.simps) simp
    with True show ?thesis by (simp add: digitChar_code)
  next
    case False
    then have "showNat n = showNat (n div 10) @ [digitChar (n mod 10)]"
      by (subst showNat.simps) simp
    moreover have "(of_char (digitChar (n mod 10)) :: nat) < 64" by (simp add: digitChar_code)
    ultimately show ?thesis
      using "1.IH" [OF False] by simp
  qed
qed

lemma numberToString_chars: "set (numberToString i) \<subseteq> {c. (of_char c :: nat) < 64}"
  using showNat_chars [of "nat (- i)"] showNat_chars [of "nat i"]
  by (simp add: numberToString_def)

lemma padStart_zero_chars:
  "set s \<subseteq> {c. (of_char c :: nat) < 64} \<Longrightarrow>
     set (padStart n (CHR ''0'') s) \<subseteq> {c. (of_char c :: nat) < 64}"
  by (auto simp: padStart_def)

lemma pad_number_chars:
  "set (padStart n (CHR ''0'') (numberToString i)) \<subseteq> {c. (of_char c :: nat) < 64}"
  by (rule padStart_zero_chars) (rule numberToString_chars)

lemma isoYear_chars: "set (isoYear y) \<subseteq> {c. (of_char c :: nat) < 64}"
  using pad_number_chars [of 4 y] pad_number_chars [of 6 "\<bar>y\<bar>"]
  by (simp add: isoYear_def)

lemma isoDate_chars: "set (isoDate t) \<subseteq> {c. (of_char c :: nat) < 64}"
  using isoYear_chars [of "YearFromTime t"] pad_number_chars [of 2 "MonthFromTime t + 1"]
    pad_number_chars [of 2 "DateFromTime t"]
  by (simp add: isoDate_def)

lemma beforeT_isoString: "beforeT (isoString t) = isoDate t"
proof -
  have "c \<noteq> CHR ''T''" if "c \<in> set (isoDate t)" for c
  proof -
    from that isoDate_chars [of t] have "(of_char c :: nat) < 64" by blast
    then show ?thesis by auto
  qed
  then have "takeWhile (\<lambda>c. c \<noteq> CHR ''T'') (isoDate t @ CHR ''T'' # (isoTime t @ ''Z'')) = isoDate t"
    by (simp add: takeWhile_tail takeWhile_eq_all_conv)
  then show ?thesis
    by (simp add: beforeT_def isoString_def)
qed

lemma makeSession_candidateDate:
  assumes "clockInRange now" and "d < 7"
    and "int32 (ct_startMinutes ct)" and "int32 (ct_endMinutes ct)"
  shows "makeSession ct (candidateDate now d) = Inr (sessionInstance now ct d)"
  by (simp add: makeSession_def setUTCMinutes_candidateDate TimeClip_minutes [OF assms(1,2)] assms
      toISOString_def beforeT_isoString sessionInstance_def startInstant_def endInstant_def)

lemma horizon_7: "horizon = 7" by (simp add: horizon_def)

lemma offsetLoop_eq:
  "clockInRange now \<Longrightarrow> int32 (ct_startMinutes ct) \<Longrightarrow> int32 (ct_endMinutes ct) \<Longrightarrow>
   offsetLoop now ct offset upcoming =
     Inr (upcoming @ concat (map (\<lambda>d. if WeekDay (candidateDate now d) = ct_dayOfWeek ct
                                        then [sessionInstance now ct d] else [])
                                 [offset..<horizon]))"
proof (induction now ct offset upcoming rule: offsetLoop.induct)
  case (1 now' ct' offset upcoming)
  note c = "1.prems"(1) and m = "1.prems"(2,3)
  show ?case
  proof (cases "offset < horizon")
    case False
    then show ?thesis by (subst offsetLoop.simps) simp
  next
    case True
    then have d7: "offset < 7" by (simp add: horizon_def)
    have date: "DateUTC (YearFromTime now') (MonthFromTime now') (DateFromTime now' + int offset)
                  = Some (candidateDate now' offset)"
      using c d7 by (rule DateUTC_offset)
    have ms: "makeSession ct' (candidateDate now' offset) = Inr (sessionInstance now' ct' offset)"
      using c d7 m by (rule makeSession_candidateDate)
    have up: "[offset..<horizon] = offset # [offset + 1..<horizon]"
      using True by (simp add: upt_conv_Cons)
    show ?thesis
    proof (cases "WeekDay (candidateDate now' offset) = ct_dayOfWeek ct'")
      case W: True
      have "offsetLoop now' ct' offset upcoming
              = offsetLoop now' ct' (offset + 1) (upcoming @ [sessionInstance now' ct' offset])"
        using True W by (subst offsetLoop.simps) (simp add: date ms)
      also have "\<dots> = Inr ((upcoming @ [sessionInstance now' ct' offset])
            @ concat (map (\<lambda>d. if WeekDay (candidateDate now' d) = ct_dayOfWeek ct'
                                then [sessionInstance now' ct' d] else [])
                          [offset + 1..<horizon]))"
        using True date W ms c m by (intro "1.IH"(2)) auto
      finally show ?thesis using W by (simp add: up)
    next
      case W: False
      have "offsetLoop now' ct' offset upcoming = offsetLoop now' ct' (offset + 1) upcoming"
        using True W by (subst offsetLoop.simps) (simp add: date)
      also have "\<dots> = Inr (upcoming
            @ concat (map (\<lambda>d. if WeekDay (candidateDate now' d) = ct_dayOfWeek ct'
                                then [sessionInstance now' ct' d] else [])
                          [offset + 1..<horizon]))"
        using True date W c m by (intro "1.IH"(3)) auto
      finally show ?thesis using W by (simp add: up)
    qed
  qed
qed

lemma classTimesLoop_eq:
  assumes "clockInRange now"
    and "\<forall>ct \<in> set cts. int32 (ct_startMinutes ct) \<and> int32 (ct_endMinutes ct)"
  shows "classTimesLoop now cts upcoming = Inr (upcoming @ expand now cts)"
  using assms(2)
proof (induction cts arbitrary: upcoming)
  case Nil
  then show ?case by (simp add: expand_def)
next
  case (Cons ct cts)
  have "offsetLoop now ct 0 upcoming = Inr (upcoming @ expandSlot now ct)"
    using assms(1) Cons.prems by (simp add: offsetLoop_eq expandSlot_def)
  then show ?case
    using Cons by (simp add: expand_def)
qed

lemma upcomingSessions_eq:
  assumes "clockInRange now"
    and "\<forall>ct \<in> set cts. int32 (ct_startMinutes ct) \<and> int32 (ct_endMinutes ct)"
  shows "upcomingSessions now cts = Inr (sortBy byStart (expand now cts))"
  using classTimesLoop_eq [OF assms, of "[]"] by (simp add: upcomingSessions_def)

lemma mset_insertBy: "mset (insertBy cmp x ys) = add_mset x (mset ys)"
  by (induction ys) auto

lemma mset_sortBy: "mset (sortBy cmp xs) = mset xs"
  by (induction xs) (auto simp: sortBy_def mset_insertBy)

lemma set_sortBy: "set (sortBy cmp xs) = set xs"
  using mset_sortBy [of cmp xs] by (metis set_mset_mset)

lemma length_sortBy: "length (sortBy cmp xs) = length xs"
  using mset_sortBy [of cmp xs] by (metis size_mset)

lemma WeekDay_candidateDate:
  "WeekDay (candidateDate now d) = ((Day now + 4) mod 7 + int d) mod 7"
proof -
  have e: "Day now + int d + 4 = (Day now + 4) + int d" by simp
  show ?thesis
    unfolding WeekDay_def Day_candidateDate e by (rule mod_add_left_eq [symmetric])
qed

lemma upt_0_7: "[0..<7] = [0, 1, 2, 3, 4, 5, 6]"
  by code_simp

lemma length_expandSlot:
  "length (expandSlot now ct) = (if 0 \<le> ct_dayOfWeek ct \<and> ct_dayOfWeek ct \<le> 6 then 1 else 0)"
proof -
  define w where "w = (Day now + 4) mod 7"
  have "0 \<le> w" "w < 7" by (simp_all add: w_def)
  then have "w = 0 \<or> w = 1 \<or> w = 2 \<or> w = 3 \<or> w = 4 \<or> w = 5 \<or> w = 6" by presburger
  then show ?thesis
    unfolding expandSlot_def horizon_7 upt_0_7 WeekDay_candidateDate w_def [symmetric]
    by (elim disjE) simp_all
qed

lemma length_expand:
  "length (expand now cts) = length (filter (\<lambda>ct. 0 \<le> ct_dayOfWeek ct \<and> ct_dayOfWeek ct \<le> 6) cts)"
  by (induction cts) (simp_all add: expand_def length_expandSlot)

lemma set_expand:
  "set (expand now cts) =
     {sessionInstance now ct d | ct d.
        ct \<in> set cts \<and> d < horizon \<and> WeekDay (candidateDate now d) = ct_dayOfWeek ct}"
  by (force simp: expand_def expandSlot_def split: if_splits)

text \<open>
  Claim C9.  For a clock in range and minute fields in the 32-bit range, the expansion
  succeeds and returns, sorted, exactly the sessions of the specification's algorithm:
  one for each slot and each offset \<open>d\<close> below the horizon for which the UTC weekday of
  the reference date plus \<open>d\<close> days is the slot's day of week.  Such a session has the
  day of week of its slot, the identifier made of the slot identifier, a dash and the
  ISO date, and starts and ends at that date plus the start and the end minutes.
\<close>

theorem expansion_by_weekday:
  assumes "clockInRange now"
    and "\<forall>ct \<in> set cts. int32 (ct_startMinutes ct) \<and> int32 (ct_endMinutes ct)"
  shows "upcomingSessions now cts = Inr (sortBy byStart (expand now cts))
   \<and> mset (sortBy byStart (expand now cts)) = mset (expand now cts)
   \<and> set (sortBy byStart (expand now cts)) =
       {sessionInstance now ct d | ct d.
          ct \<in> set cts \<and> d < horizon \<and> WeekDay (candidateDate now d) = ct_dayOfWeek ct}
   \<and> (\<forall>ct d. us_dayOfWeek (sessionInstance now ct d) = ct_dayOfWeek ct
        \<and> us_id (sessionInstance now ct d) = ct_id ct @ ''-'' @ isoDate (candidateDate now d)
        \<and> us_start (sessionInstance now ct d) =
            isoString (candidateDate now d + ct_startMinutes ct * msPerMinute)
        \<and> us_end (sessionInstance now ct d) =
            isoString (candidateDate now d + ct_endMinutes ct * msPerMinute)
        \<and> candidateDate now d = (Day now + int d) * msPerDay)"
  using upcomingSessions_eq [OF assms]
  by (simp add: mset_sortBy set_sortBy set_expand sessionInstance_def startInstant_def
      endInstant_def candidateDate_eq)

text \<open>
  On Sunday 2 November 2025 a Wednesday slot from 10:00 to 11:00 gives the session of
  5 November.
\<close>

theorem expansion_by_weekday_witness:
  "clockInRange 1762086896789 \<and> int32 600 \<and> int32 660
   \<and> upcomingSessions 1762086896789
       [\<lparr>ct_id = ''t1'', ct_classId = ''c1'', ct_dayOfWeek = 3, ct_startMinutes = 600,
         ct_endMinutes = 660, ct_class = None\<rparr>]
     = Inr [\<lparr>us_id = ''t1-2025-11-05'', us_classId = ''c1'', us_className = ''Unnamed'',
             us_teacher = None, us_start = ''2025-11-05T10:00:00.000Z'',
             us_end = ''2025-11-05T11:00:00.000Z'', us_dayOfWeek = 3\<rparr>]"
proof -
  let ?cts = "[\<lparr>ct_id = ''t1'', ct_classId = ''c1'', ct_dayOfWeek = 3, ct_startMinutes = 600,
         ct_endMinutes = 660, ct_class = None\<rparr>]"
  have c: "clockInRange 1762086896789" by (simp add: clockInRange_def)
  have m: "int32 600" "int32 660" by (simp_all add: int32_def)
  then have r: "\<forall>ct \<in> set ?cts. int32 (ct_startMinutes ct) \<and> int32 (ct_endMinutes ct)" by simp
  have "upcomingSessions 1762086896789 ?cts = Inr (sortBy byStart (expand 1762086896789 ?cts))"
    using expansion_by_weekday [OF c r] by blast
  also have "\<dots> = Inr [\<lparr>us_id = ''t1-2025-11-05'', us_classId = ''c1'', us_className = ''Unnamed'',
             us_teacher = None, us_start = ''2025-11-05T10:00:00.000Z'',
             us_end = ''2025-11-05T11:00:00.000Z'', us_dayOfWeek = 3\<rparr>]"
    by code_simp
  finally show ?thesis using c m by simp
qed

lemma expandSlot_single:
  "expandSlot now ct =
     (if 0 \<le> ct_dayOfWeek ct \<and> ct_dayOfWeek ct \<le> 6
      then [sessionInstance now ct (nat ((ct_dayOfWeek ct - WeekDay now) mod 7))]
      else [])"
proof -
  define w where "w = (Day now + 4) mod 7"
  have ww: "WeekDay now = w" by (simp add: WeekDay_def w_def)
  have "0 \<le> w" "w < 7" by (simp_all add: w_def)
  then have wc: "w = 0 \<or> w = 1 \<or> w = 2 \<or> w = 3 \<or> w = 4 \<or> w = 5 \<or> w = 6" by presburger
  show ?thesis
  proof (cases "0 \<le> ct_dayOfWeek ct \<and> ct_dayOfWeek ct \<le> 6")
    case False
    with wc show ?thesis
      unfolding expandSlot_def horizon_7 upt_0_7 WeekDay_candidateDate w_def [symmetric]
      by (elim disjE) auto
  next
    case True
    then have dc: "ct_dayOfWeek ct = 0 \<or> ct_dayOfWeek ct = 1 \<or> ct_dayOfWeek ct = 2
        \<or> ct_dayOfWeek ct = 3 \<or> ct_dayOfWeek ct = 4 \<or> ct_dayOfWeek ct = 5
        \<or> ct_dayOfWeek ct = 6" by presburger
    from wc dc show ?thesis
      unfolding expandSlot_def horizon_7 upt_0_7 WeekDay_candidateDate ww w_def [symmetric]
      by (elim disjE) simp_all
  qed
qed

lemma slot_offset_matches:
  assumes "0 \<le> dow" "dow \<le> 6"
  shows "nat ((dow - WeekDay now) mod 7) < horizon
     \<and> WeekDay (candidateDate now (nat ((dow - WeekDay now) mod 7))) = dow"
proof -
  define w where "w = (Day now + 4) mod 7"
  have ww: "WeekDay now = w" by (simp add: WeekDay_def w_def)
  have "0 \<le> w" "w < 7" by (simp_all add: w_def)
  then have wc: "w = 0 \<or> w = 1 \<or> w = 2 \<or> w = 3 \<or> w = 4 \<or> w = 5 \<or> w = 6" by presburger
  from assms have dc: "dow = 0 \<or> dow = 1 \<or> dow = 2 \<or> dow = 3 \<or> dow = 4 \<or> dow = 5 \<or> dow = 6"
    by presburger
  from wc dc show ?thesis
    unfolding horizon_7 WeekDay_candidateDate ww w_def [symmetric]
    by (elim disjE) simp_all
qed

text \<open>
  Claim C10.  With the horizon of 7 days the loop over the offsets pushes, for a slot
  whose day of week lies in 0..6, exactly one session: the session instance of that slot
  on the one offset below 7 whose candidate date has the slot's weekday; for any other
  slot it pushes nothing.  The expansion returns these sessions sorted, so before the
  truncation to 15 their number is the number of slots with a day of week in 0..6.
\<close>

theorem one_session_per_slot:
  assumes "clockInRange now"
    and "\<forall>ct \<in> set cts. int32 (ct_startMinutes ct) \<and> int32 (ct_endMinutes ct)"
  shows "upcomingSessions now cts =
       Inr (sortBy byStart
         (concat (map (\<lambda>ct. if 0 \<le> ct_dayOfWeek ct \<and> ct_dayOfWeek ct \<le> 6
                            then [sessionInstance now ct
                                    (nat ((ct_dayOfWeek ct - WeekDay now) mod 7))]
                            else []) cts)))
   \<and> (\<forall>ct \<in> set cts. \<forall>upcoming.
         offsetLoop now ct 0 upcoming =
           Inr (upcoming @ (if 0 \<le> ct_dayOfWeek ct \<and> ct_dayOfWeek ct \<le> 6
                            then [sessionInstance now ct
                                    (nat ((ct_dayOfWeek ct - WeekDay now) mod 7))]
                            else [])))
   \<and> (\<forall>ct. 0 \<le> ct_dayOfWeek ct \<and> ct_dayOfWeek ct \<le> 6 \<longrightarrow>
         nat ((ct_dayOfWeek ct - WeekDay now) mod 7) < horizon
         \<and> WeekDay (candidateDate now (nat ((ct_dayOfWeek ct - WeekDay now) mod 7)))
             = ct_dayOfWeek ct)
   \<and> (\<exists>sessions. upcomingSessions now cts = Inr sessions
         \<and> length sessions =
             length (filter (\<lambda>ct. 0 \<le> ct_dayOfWeek ct \<and> ct_dayOfWeek ct \<le> 6) cts)
         \<and> scheduleUpcomingSessions now cts = Inr (take 15 sessions))"
proof -
  let ?one = "\<lambda>ct. if 0 \<le> ct_dayOfWeek ct \<and> ct_dayOfWeek ct \<le> 6
                  then [sessionInstance now ct (nat ((ct_dayOfWeek ct - WeekDay now) mod 7))]
                  else []"
  have e: "expandSlot now = ?one" by (rule ext) (rule expandSlot_single)
  have 1: "upcomingSessions now cts = Inr (sortBy byStart (concat (map ?one cts)))"
    using upcomingSessions_eq [OF assms] by (simp add: expand_def e)
  have 2: "offsetLoop now ct 0 upcoming = Inr (upcoming @ ?one ct)"
    if "ct \<in> set cts" for ct upcoming
  proof -
    have "offsetLoop now ct 0 upcoming = Inr (upcoming @ expandSlot now ct)"
      using assms that by (simp add: offsetLoop_eq expandSlot_def)
    then show ?thesis by (simp only: expandSlot_single)
  qed
  have 3: "nat ((ct_dayOfWeek ct - WeekDay now) mod 7) < horizon
         \<and> WeekDay (candidateDate now (nat ((ct_dayOfWeek ct - WeekDay now) mod 7)))
             = ct_dayOfWeek ct"
    if "0 \<le> ct_dayOfWeek ct \<and> ct_dayOfWeek ct \<le> 6" for ct
    using that by (intro slot_offset_matches) simp_all
  have 4: "\<exists>sessions. upcomingSessions now cts = Inr sessions
         \<and> length sessions =
             length (filter (\<lambda>ct. 0 \<le> ct_dayOfWeek ct \<and> ct_dayOfWeek ct \<le> 6) cts)
         \<and> scheduleUpcomingSessions now cts = Inr (take 15 sessions)"
    using upcomingSessions_eq [OF assms]
    by (simp add: length_sortBy length_expand scheduleUpcomingSessions_def)
  from 1 2 3 4 show ?thesis by blast
qed

text \<open>
  On Sunday 2 November 2025, three slots, one of them with the day of week 7, give the
  two sessions of the Sunday slot and of the Wednesday slot.
\<close>

theorem one_session_per_slot_witness:
  "clockInRange 1762086896789 \<and> int32 600 \<and> int32 660
   \<and> upcomingSessions 1762086896789
       [\<lparr>ct_id = ''t1'', ct_classId = ''c1'', ct_dayOfWeek = 3, ct_startMinutes = 600,
         ct_endMinutes = 660, ct_class = None\<rparr>,
        \<lparr>ct_id = ''t2'', ct_classId = ''c1'', ct_dayOfWeek = 7, ct_startMinutes = 600,
         ct_endMinutes = 660, ct_class = None\<rparr>,
        \<lparr>ct_id = ''t3'', ct_classId = ''c2'', ct_dayOfWeek = 0, ct_startMinutes = 600,
         ct_endMinutes = 660, ct_class = None\<rparr>]
     = Inr [\<lparr>us_id = ''t3-2025-11-02'', us_classId = ''c2'', us_className = ''Unnamed'',
             us_teacher = None, us_start = ''2025-11-02T10:00:00.000Z'',
             us_end = ''2025-11-02T11:00:00.000Z'', us_dayOfWeek = 0\<rparr>,
            \<lparr>us_id = ''t1-2025-11-05'', us_classId = ''c1'', us_className = ''Unnamed'',
             us_teacher = None, us_start = ''2025-11-05T10:00:00.000Z'',
             us_end = ''2025-11-05T11:00:00.000Z'', us_dayOfWeek = 3\<rparr>]"
proof -
  let ?cts = "[\<lparr>ct_id = ''t1'', ct_classId = ''c1'', ct_dayOfWeek = 3, ct_startMinutes = 600,
         ct_endMinutes = 660, ct_class = None\<rparr>,
        \<lparr>ct_id = ''t2'', ct_classId = ''c1'', ct_dayOfWeek = 7, ct_startMinutes = 600,
         ct_endMinutes = 660, ct_class = None\<rparr>,
        \<lparr>ct_id = ''t3'', ct_classId = ''c2'', ct_dayOfWeek = 0, ct_startMinutes = 600,
         ct_endMinutes = 660, ct_class = None\<rparr>]"
  have c: "clockInRange 1762086896789" by (simp add: clockInRange_def)
  have m: "int32 600" "int32 660" by (simp_all add: int32_def)
  then have r: "\<forall>ct \<in> set ?cts. int32 (ct_startMinutes ct) \<and> int32 (ct_endMinutes ct)" by simp
  have "upcomingSessions 1762086896789 ?cts =
       Inr (sortBy byStart
         (concat (map (\<lambda>ct. if 0 \<le> ct_dayOfWeek ct \<and> ct_dayOfWeek ct \<le> 6
                            then [sessionInstance 1762086896789 ct
                                    (nat ((ct_dayOfWeek ct - WeekDay 1762086896789) mod 7))]
                            else []) ?cts)))"
    using one_session_per_slot [OF c r] by blast
  also have "\<dots> = Inr [\<lparr>us_id = ''t3-2025-11-02'', us_classId = ''c2'', us_className = ''Unnamed'',
             us_teacher = None, us_start = ''2025-11-02T10:00:00.000Z'',
             us_end = ''2025-11-02T11:00:00.000Z'', us_dayOfWeek = 0\<rparr>,
            \<lparr>us_id = ''t1-2025-11-05'', us_classId = ''c1'', us_className = ''Unnamed'',
             us_teacher = None, us_start = ''2025-11-05T10:00:00.000Z'',
             us_end = ''2025-11-05T11:00:00.000Z'', us_dayOfWeek = 3\<rparr>]"
    by code_simp
  finally show ?thesis using c m by simp
qed

text \<open>
  Claim C6, as amended.  For a clock in range and minute fields in the 32-bit range the
  expansion raises no error, and a slot whose end minutes are not after its start
  minutes still has its session for every matching offset, with the end instant not
  after the start instant (before it when the end minutes are smaller).
\<close>

theorem degenerate_slot_emitted:
  assumes "clockInRange now"
    and "\<forall>ct \<in> set cts. int32 (ct_startMinutes ct) \<and> int32 (ct_endMinutes ct)"
  shows "\<exists>sessions. upcomingSessions now cts = Inr sessions
     \<and> (\<forall>ct d. ct \<in> set cts \<and> d < horizon
             \<and> WeekDay (candidateDate now d) = ct_dayOfWeek ct
             \<and> ct_endMinutes ct \<le> ct_startMinutes ct
           \<longrightarrow> sessionInstance now ct d \<in> set sessions
               \<and> us_start (sessionInstance now ct d) = isoString (startInstant now ct d)
               \<and> us_end (sessionInstance now ct d) = isoString (endInstant now ct d)
               \<and> endInstant now ct d \<le> startInstant now ct d
               \<and> (ct_endMinutes ct < ct_startMinutes ct
                     \<longrightarrow> endInstant now ct d < startInstant now ct d))"
proof -
  have "sessionInstance now ct d \<in> set (sortBy byStart (expand now cts))"
    if "ct \<in> set cts" "d < horizon" "WeekDay (candidateDate now d) = ct_dayOfWeek ct" for ct d
    using that unfolding set_sortBy set_expand by blast
  then show ?thesis
    using upcomingSessions_eq [OF assms]
    by (simp add: sessionInstance_def startInstant_def endInstant_def msPerMinute_def)
qed

text \<open>
  A Wednesday slot from 10:00 to 09:00 is emitted with its end before its start.
\<close>

theorem degenerate_slot_emitted_witness:
  "clockInRange 1762086896789 \<and> int32 600 \<and> int32 540
   \<and> upcomingSessions 1762086896789
       [\<lparr>ct_id = ''t1'', ct_classId = ''c1'', ct_dayOfWeek = 3, ct_startMinutes = 600,
         ct_endMinutes = 540, ct_class = None\<rparr>]
     = Inr [\<lparr>us_id = ''t1-2025-11-05'', us_classId = ''c1'', us_className = ''Unnamed'',
             us_teacher = None, us_start = ''2025-11-05T10:00:00.000Z'',
             us_end = ''2025-11-05T09:00:00.000Z'', us_dayOfWeek = 3\<rparr>]"
proof -
  let ?ct = "\<lparr>ct_id = ''t1'', ct_classId = ''c1'', ct_dayOfWeek = 3, ct_startMinutes = 600,
         ct_endMinutes = 540, ct_class = None\<rparr>"
  have c: "clockInRange 1762086896789" by (simp add: clockInRange_def)
  have m: "int32 600" "int32 540" by (simp_all add: int32_def)
  then have r: "\<forall>ct \<in> set [?ct]. int32 (ct_startMinutes ct) \<and> int32 (ct_endMinutes ct)" by simp
  obtain sessions where s: "upcomingSessions 1762086896789 [?ct] = Inr sessions"
    using degenerate_slot_emitted [OF c r] by blast
  have "upcomingSessions 1762086896789 [?ct]
     = Inr [\<lparr>us_id = ''t1-2025-11-05'', us_classId = ''c1'', us_className = ''Unnamed'',
             us_teacher = None, us_start = ''2025-11-05T10:00:00.000Z'',
             us_end = ''2025-11-05T09:00:00.000Z'', us_dayOfWeek = 3\<rparr>]"
    by code_simp
  with s c m show ?thesis by simp
qed

text \<open>
  The expansion is not total over all integer minute fields: end minutes far enough in
  the past leave the range of time values, the end date is invalid and \<open>toISOString\<close>
  raises a \<open>RangeError\<close>.
\<close>

theorem degenerate_slot_range_counterexample:
  "- 150000000000000 \<le> (600 :: int)
   \<and> upcomingSessions 1762086896789
       [\<lparr>ct_id = ''t1'', ct_classId = ''c1'', ct_dayOfWeek = 3, ct_startMinutes = 600,
         ct_endMinutes = - 150000000000000, ct_class = None\<rparr>]
     = Inl RangeError"
  by code_simp

subsection \<open>ISO strings order as instants\<close>



lemma localeCompare_same: "localeCompare a a = 0"
  by (induction a) simp_all

lemma localeCompare_flip: "localeCompare b a = - localeCompare a b"
  by (induction a b rule: localeCompare.induct) auto

lemma localeCompare_prefix:
  "length a = length b \<Longrightarrow>
     localeCompare (a @ r) (b @ s) = (if a = b then localeCompare r s else localeCompare a b)"
  by (induction a b rule: list_induct2) auto

lemma localeCompare_field:
  "length a = length b \<Longrightarrow>
     localeCompare (a @ c # r) (b @ c # s) = (if a = b then localeCompare r s else localeCompare a b)"
  by (simp add: localeCompare_prefix)

lemma showNat_1: "n < 10 \<Longrightarrow> showNat n = [digitChar n]"
  by (subst showNat.simps) simp

lemma showNat_2: "10 \<le> n \<Longrightarrow> n < 100 \<Longrightarrow> showNat n = [digitChar (n div 10), digitChar (n mod 10)]"
  by (subst showNat.simps) (simp add: showNat_1)

lemma showNat_3:
  assumes "100 \<le> n" "n < 1000"
  shows "showNat n = [digitChar (n div 100), digitChar (n div 10 mod 10), digitChar (n mod 10)]"
proof -
  have a: "10 \<le> n div 10" "n div 10 < 100" using assms by linarith+
  have b: "n div 10 div 10 = n div 100" by (simp add: div_mult2_eq [symmetric])
  have "showNat n = showNat (n div 10) @ [digitChar (n mod 10)]"
    using assms by (subst showNat.simps) simp
  then show ?thesis by (simp add: showNat_2 [OF a] b)
qed

lemma showNat_4:
  assumes "1000 \<le> n" "n < 10000"
  shows "showNat n = [digitChar (n div 1000), digitChar (n div 100 mod 10),
                      digitChar (n div 10 mod 10), digitChar (n mod 10)]"
proof -
  have a: "100 \<le> n div 10" "n div 10 < 1000" using assms by linarith+
  have b: "n div 10 div 100 = n div 1000" "n div 10 div 10 = n div 100"
    by (simp_all add: div_mult2_eq [symmetric])
  have "showNat n = showNat (n div 10) @ [digitChar (n mod 10)]"
    using assms by (subst showNat.simps) simp
  then show ?thesis by (simp add: showNat_3 [OF a] b)
qed

lemma digitChar_0: "digitChar 0 = CHR ''0''"
  by code_simp

lemma replicate_zeros:
  "replicate 1 c = [c]" "replicate 2 c = [c, c]" "replicate 3 c = [c, c, c]"
  by (simp_all add: numeral_2_eq_2 numeral_3_eq_3)

lemma pad2_digits:
  assumes "0 \<le> x" "x < 100"
  shows "padStart 2 (CHR ''0'') (numberToString x)
           = [digitChar (nat x div 10), digitChar (nat x mod 10)]"
proof (cases "nat x < 10")
  case True
  then show ?thesis using assms
    by (simp add: numberToString_def showNat_1 padStart_def digitChar_0 replicate_zeros)
next
  case False
  then show ?thesis using assms
    by (simp add: numberToString_def showNat_2 padStart_def)
qed

lemma pad3_digits:
  assumes "0 \<le> x" "x < 1000"
  shows "padStart 3 (CHR ''0'') (numberToString x)
           = [digitChar (nat x div 100), digitChar (nat x div 10 mod 10), digitChar (nat x mod 10)]"
proof -
  consider "nat x < 10" | "10 \<le> nat x" "nat x < 100" | "100 \<le> nat x" by linarith
  then show ?thesis
  proof cases
    case 1
    then show ?thesis using assms
      by (simp add: numberToString_def showNat_1 padStart_def digitChar_0 replicate_zeros)
  next
    case 2
    then show ?thesis using assms
      by (simp add: numberToString_def showNat_2 padStart_def digitChar_0 replicate_zeros)
  next
    case 3
    then show ?thesis using assms
      by (simp add: numberToString_def showNat_3 padStart_def)
  qed
qed

lemma isoYear_digits:
  assumes "0 \<le> y" "y \<le> 9999"
  shows "isoYear y = [digitChar (nat y div 1000), digitChar (nat y div 100 mod 10),
                      digitChar (nat y div 10 mod 10), digitChar (nat y mod 10)]"
proof -
  consider "nat y < 10" | "10 \<le> nat y" "nat y < 100" | "100 \<le> nat y" "nat y < 1000"
    | "1000 \<le> nat y" by linarith
  then show ?thesis
  proof cases
    case 1
    then show ?thesis using assms
      by (simp add: isoYear_def numberToString_def showNat_1 padStart_def digitChar_0 replicate_zeros)
  next
    case 2
    then show ?thesis using assms
      by (simp add: isoYear_def numberToString_def showNat_2 padStart_def digitChar_0 replicate_zeros)
  next
    case 3
    then show ?thesis using assms
      by (simp add: isoYear_def numberToString_def showNat_3 padStart_def digitChar_0 replicate_zeros)
  next
    case 4
    then show ?thesis using assms
      by (simp add: isoYear_def numberToString_def showNat_4 padStart_def)
  qed
qed

lemma localeCompare_digit:
  "a < 10 \<Longrightarrow> b < 10 \<Longrightarrow>
     localeCompare (digitChar a # r) (digitChar b # s) =
       (if a < b then - 1 else if b < a then 1 else localeCompare r s)"
  by (simp add: digitChar_code)

lemma lex_radix:
  fixes qa ra qb rb :: nat
  assumes "ra < 10" "rb < 10"
  shows "(10 * qa + ra < 10 * qb + rb) = (qa < qb \<or> (qa = qb \<and> ra < rb))"
  using assms by auto

lemma lex10:
  "(a < b) = (a div 10 < b div 10 \<or> (a div 10 = b div 10 \<and> a mod 10 < b mod 10))"
  for a b :: nat
proof -
  have "a = 10 * (a div 10) + a mod 10" "b = 10 * (b div 10) + b mod 10" by simp_all
  then have "(a < b) = (10 * (a div 10) + a mod 10 < 10 * (b div 10) + b mod 10)" by simp
  also have "\<dots> = (a div 10 < b div 10 \<or> (a div 10 = b div 10 \<and> a mod 10 < b mod 10))"
    by (rule lex_radix) simp_all
  finally show ?thesis .
qed

lemma digits2_less:
  assumes "a < b" "b < 100"
  shows "localeCompare [digitChar (a div 10), digitChar (a mod 10)]
           [digitChar (b div 10), digitChar (b mod 10)] = - 1"
proof -
  have d: "a div 10 < 10" "b div 10 < 10" "a mod 10 < 10" "b mod 10 < 10"
    using assms by linarith+
  have "a div 10 < b div 10 \<or> (a div 10 = b div 10 \<and> a mod 10 < b mod 10)"
    using assms(1) lex10 [of a b] by simp
  then show ?thesis
    by (auto simp del: localeCompare.simps simp add: localeCompare_digit d)
qed

lemma digits3_lex:
  assumes "a2 < 10" "b2 < 10" "a1 < 10" "b1 < 10" "a0 < 10" "b0 < 10"
    and "a2 < b2 \<or> (a2 = b2 \<and> a1 < b1) \<or> (a2 = b2 \<and> a1 = b1 \<and> a0 < b0)"
  shows "localeCompare [digitChar a2, digitChar a1, digitChar a0]
           [digitChar b2, digitChar b1, digitChar b0] = - 1"
  using assms by (auto simp del: localeCompare.simps simp add: localeCompare_digit)

lemma digits4_lex:
  assumes "a3 < 10" "b3 < 10" "a2 < 10" "b2 < 10" "a1 < 10" "b1 < 10" "a0 < 10" "b0 < 10"
    and "a3 < b3 \<or> (a3 = b3 \<and> a2 < b2) \<or> (a3 = b3 \<and> a2 = b2 \<and> a1 < b1)
          \<or> (a3 = b3 \<and> a2 = b2 \<and> a1 = b1 \<and> a0 < b0)"
  shows "localeCompare [digitChar a3, digitChar a2, digitChar a1, digitChar a0]
           [digitChar b3, digitChar b2, digitChar b1, digitChar b0] = - 1"
  using assms by (auto simp del: localeCompare.simps simp add: localeCompare_digit)

lemma digits3_less:
  assumes "a < b" "b < 1000"
  shows "localeCompare [digitChar (a div 100), digitChar (a div 10 mod 10), digitChar (a mod 10)]
           [digitChar (b div 100), digitChar (b div 10 mod 10), digitChar (b mod 10)] = - 1"
proof -
  have d: "a div 100 < 10" "b div 100 < 10" "a div 10 mod 10 < 10" "b div 10 mod 10 < 10"
    "a mod 10 < 10" "b mod 10 < 10"
    using assms by linarith+
  have e: "a div 10 div 10 = a div 100" "b div 10 div 10 = b div 100"
    by (simp_all add: div_mult2_eq [symmetric])
  have "a div 10 < b div 10 \<or> (a div 10 = b div 10 \<and> a mod 10 < b mod 10)"
    using assms(1) lex10 [of a b] by simp
  moreover have "(a div 10 < b div 10) =
      (a div 100 < b div 100 \<or> (a div 100 = b div 100 \<and> a div 10 mod 10 < b div 10 mod 10))"
    using lex10 [of "a div 10" "b div 10"] by (simp add: e)
  moreover have "a div 10 = b div 10 \<Longrightarrow>
      a div 100 = b div 100 \<and> a div 10 mod 10 = b div 10 mod 10"
    by (metis e)
  ultimately have "a div 100 < b div 100
     \<or> (a div 100 = b div 100 \<and> a div 10 mod 10 < b div 10 mod 10)
     \<or> (a div 100 = b div 100 \<and> a div 10 mod 10 = b div 10 mod 10 \<and> a mod 10 < b mod 10)"
    by blast
  with d show ?thesis by (intro digits3_lex)
qed

lemma digits4_less:
  assumes "a < b" "b < 10000"
  shows "localeCompare [digitChar (a div 1000), digitChar (a div 100 mod 10),
                        digitChar (a div 10 mod 10), digitChar (a mod 10)]
           [digitChar (b div 1000), digitChar (b div 100 mod 10),
            digitChar (b div 10 mod 10), digitChar (b mod 10)] = - 1"
proof -
  have d: "a div 1000 < 10" "b div 1000 < 10" "a div 100 mod 10 < 10" "b div 100 mod 10 < 10"
    "a div 10 mod 10 < 10" "b div 10 mod 10 < 10" "a mod 10 < 10" "b mod 10 < 10"
    using assms by linarith+
  have e: "a div 10 div 10 = a div 100" "b div 10 div 10 = b div 100"
    "a div 100 div 10 = a div 1000" "b div 100 div 10 = b div 1000"
    by (simp_all add: div_mult2_eq [symmetric])
  have 1: "a div 10 < b div 10 \<or> (a div 10 = b div 10 \<and> a mod 10 < b mod 10)"
    using assms(1) lex10 [of a b] by simp
  have 2: "(a div 10 < b div 10) =
      (a div 100 < b div 100 \<or> (a div 100 = b div 100 \<and> a div 10 mod 10 < b div 10 mod 10))"
    using lex10 [of "a div 10" "b div 10"] by (simp add: e)
  have 3: "(a div 100 < b div 100) =
      (a div 1000 < b div 1000 \<or> (a div 1000 = b div 1000 \<and> a div 100 mod 10 < b div 100 mod 10))"
    using lex10 [of "a div 100" "b div 100"] by (simp add: e)
  have 4: "a div 10 = b div 10 \<Longrightarrow> a div 100 = b div 100 \<and> a div 10 mod 10 = b div 10 mod 10"
    by (metis e(1,2))
  have 5: "a div 100 = b div 100 \<Longrightarrow> a div 1000 = b div 1000 \<and> a div 100 mod 10 = b div 100 mod 10"
    by (metis e(3,4))
  from 1 2 3 4 5 have "a div 1000 < b div 1000
     \<or> (a div 1000 = b div 1000 \<and> a div 100 mod 10 < b div 100 mod 10)
     \<or> (a div 1000 = b div 1000 \<and> a div 100 mod 10 = b div 100 mod 10
          \<and> a div 10 mod 10 < b div 10 mod 10)
     \<or> (a div 1000 = b div 1000 \<and> a div 100 mod 10 = b div 100 mod 10
          \<and> a div 10 mod 10 = b div 10 mod 10 \<and> a mod 10 < b mod 10)"
    by blast
  with d show ?thesis by (intro digits4_lex)
qed

lemma pad2_less:
  assumes "0 \<le> x" "x < y" "y < 100"
  shows "localeCompare (padStart 2 (CHR ''0'') (numberToString x))
           (padStart 2 (CHR ''0'') (numberToString y)) = - 1"
  using assms digits2_less [of "nat x" "nat y"] by (simp add: pad2_digits)

lemma pad3_less:
  assumes "0 \<le> x" "x < y" "y < 1000"
  shows "localeCompare (padStart 3 (CHR ''0'') (numberToString x))
           (padStart 3 (CHR ''0'') (numberToString y)) = - 1"
  using assms digits3_less [of "nat x" "nat y"] by (simp add: pad3_digits)

lemma isoYear_less:
  assumes "0 \<le> x" "x < y" "y \<le> 9999"
  shows "localeCompare (isoYear x) (isoYear y) = - 1"
  using assms digits4_less [of "nat x" "nat y"] by (simp add: isoYear_digits)

lemma length_pad2: "0 \<le> x \<Longrightarrow> x < 100 \<Longrightarrow> length (padStart 2 (CHR ''0'') (numberToString x)) = 2"
  by (simp add: pad2_digits)

lemma length_pad3: "0 \<le> x \<Longrightarrow> x < 1000 \<Longrightarrow> length (padStart 3 (CHR ''0'') (numberToString x)) = 3"
  by (simp add: pad3_digits)

lemma length_isoYear: "0 \<le> y \<Longrightarrow> y \<le> 9999 \<Longrightarrow> length (isoYear y) = 4"
  by (simp add: isoYear_digits)

lemma localeCompare_less_prefix:
  "length a = length b \<Longrightarrow> localeCompare a b = - 1 \<Longrightarrow> localeCompare (a @ r) (b @ s) = - 1"
  using localeCompare_same [of a] by (auto simp: localeCompare_prefix)

lemma localeCompare_same_prefix: "localeCompare (a @ r) (a @ s) = localeCompare r s"
  by (simp add: localeCompare_prefix)

lemma mod_less_same_div:
  fixes a b n :: int
  assumes "a div n = b div n" "a < b"
  shows "a mod n < b mod n"
proof -
  have "a mod n = a - (a div n) * n" "b mod n = b - (b div n) * n"
    by (simp_all add: minus_div_mult_eq_mod)
  with assms show ?thesis by simp
qed

lemma time_quotients:
  "t div 1000 div 60 = t div 60000" "t div 60000 div 60 = t div 3600000"
  "t div 3600000 div 24 = t div 86400000" for t :: int
  by (simp_all add: zdiv_zmult2_eq [symmetric])

lemma time_field_ranges:
  "0 \<le> HourFromTime t \<and> HourFromTime t < 100"
  "0 \<le> MinFromTime t \<and> MinFromTime t < 100"
  "0 \<le> SecFromTime t \<and> SecFromTime t < 100"
  "0 \<le> msFromTime t \<and> msFromTime t < 1000"
proof -
  have "HourFromTime t < 24" by (simp add: HourFromTime_def)
  then show "0 \<le> HourFromTime t \<and> HourFromTime t < 100" by (simp add: HourFromTime_def)
  have "MinFromTime t < 60" by (simp add: MinFromTime_def)
  then show "0 \<le> MinFromTime t \<and> MinFromTime t < 100" by (simp add: MinFromTime_def)
  have "SecFromTime t < 60" by (simp add: SecFromTime_def)
  then show "0 \<le> SecFromTime t \<and> SecFromTime t < 100" by (simp add: SecFromTime_def)
  show "0 \<le> msFromTime t \<and> msFromTime t < 1000" by (simp add: msFromTime_def msPerSecond_def)
qed

lemma isoTime_less:
  assumes d: "Day t1 = Day t2" and lt: "t1 < t2"
  shows "localeCompare (isoTime t1) (isoTime t2) = - 1"
proof -
  let ?p2 = "\<lambda>x. padStart 2 (CHR ''0'') (numberToString x)"
  let ?p3 = "\<lambda>x. padStart 3 (CHR ''0'') (numberToString x)"
  have iso: "isoTime t = ?p2 (HourFromTime t) @ CHR '':'' # ?p2 (MinFromTime t) @ CHR '':'' #
                ?p2 (SecFromTime t) @ CHR ''.'' # ?p3 (msFromTime t)" for t
    by (simp add: isoTime_def)
  note r1 = time_field_ranges [of t1] and r2 = time_field_ranges [of t2]
  have len: "length (?p2 (HourFromTime t1)) = length (?p2 (HourFromTime t2))"
    "length (?p2 (MinFromTime t1)) = length (?p2 (MinFromTime t2))"
    "length (?p2 (SecFromTime t1)) = length (?p2 (SecFromTime t2))"
    using r1 r2 by (simp_all add: length_pad2)
  have D: "t1 div 3600000 div 24 = t2 div 3600000 div 24"
    using d by (simp add: time_quotients Day_def msPerDay_def)
  have H: "t1 div 3600000 \<le> t2 div 3600000" using lt by (intro zdiv_mono1) simp_all
  have M: "t1 div 60000 \<le> t2 div 60000" using lt by (intro zdiv_mono1) simp_all
  have S: "t1 div 1000 \<le> t2 div 1000" using lt by (intro zdiv_mono1) simp_all
  show ?thesis
  proof (cases "t1 div 3600000 < t2 div 3600000")
    case True
    then have "HourFromTime t1 < HourFromTime t2"
      unfolding HourFromTime_def msPerHour_def using D by (intro mod_less_same_div)
    then have "localeCompare (?p2 (HourFromTime t1)) (?p2 (HourFromTime t2)) = - 1"
      using r1 r2 by (intro pad2_less) simp_all
    then show ?thesis
      unfolding iso by (intro localeCompare_less_prefix len)
  next
    case False
    with H have Heq: "t1 div 3600000 = t2 div 3600000" by simp
    then have h: "HourFromTime t1 = HourFromTime t2" by (simp add: HourFromTime_def msPerHour_def)
    show ?thesis
    proof (cases "t1 div 60000 < t2 div 60000")
      case True
      then have "MinFromTime t1 < MinFromTime t2"
        unfolding MinFromTime_def msPerMinute_def using Heq
        by (intro mod_less_same_div) (simp_all add: time_quotients)
      then have "localeCompare (?p2 (MinFromTime t1)) (?p2 (MinFromTime t2)) = - 1"
        using r1 r2 by (intro pad2_less) simp_all
      then have "localeCompare (?p2 (MinFromTime t1) @ CHR '':'' #
                ?p2 (SecFromTime t1) @ CHR ''.'' # ?p3 (msFromTime t1))
            (?p2 (MinFromTime t2) @ CHR '':'' #
                ?p2 (SecFromTime t2) @ CHR ''.'' # ?p3 (msFromTime t2)) = - 1"
        by (intro localeCompare_less_prefix len)
      then show ?thesis
        unfolding iso h by (simp add: localeCompare_same_prefix)
    next
      case False
      with M have Meq: "t1 div 60000 = t2 div 60000" by simp
      then have m: "MinFromTime t1 = MinFromTime t2" by (simp add: MinFromTime_def msPerMinute_def)
      show ?thesis
      proof (cases "t1 div 1000 < t2 div 1000")
        case True
        then have "SecFromTime t1 < SecFromTime t2"
          unfolding SecFromTime_def msPerSecond_def using Meq
          by (intro mod_less_same_div) (simp_all add: time_quotients)
        then have "localeCompare (?p2 (SecFromTime t1)) (?p2 (SecFromTime t2)) = - 1"
          using r1 r2 by (intro pad2_less) simp_all
        then have "localeCompare (?p2 (SecFromTime t1) @ CHR ''.'' # ?p3 (msFromTime t1))
            (?p2 (SecFromTime t2) @ CHR ''.'' # ?p3 (msFromTime t2)) = - 1"
          by (intro localeCompare_less_prefix len)
        then show ?thesis
          unfolding iso h m by (simp add: localeCompare_same_prefix)
      next
        case False
        with S have Seq: "t1 div 1000 = t2 div 1000" by simp
        then have s: "SecFromTime t1 = SecFromTime t2" by (simp add: SecFromTime_def msPerSecond_def)
        have "msFromTime t1 < msFromTime t2"
          unfolding msFromTime_def msPerSecond_def using Seq lt by (intro mod_less_same_div)
        then have "localeCompare (?p3 (msFromTime t1)) (?p3 (msFromTime t2)) = - 1"
          using r1 r2 by (intro pad3_less) simp_all
        then show ?thesis
          unfolding iso h m s by (simp add: localeCompare_same_prefix)
      qed
    qed
  qed
qed

lemma YearFromTime_mono: "Day t1 \<le> Day t2 \<Longrightarrow> YearFromTime t1 \<le> YearFromTime t2"
proof (rule ccontr)
  assume d: "Day t1 \<le> Day t2" and "\<not> YearFromTime t1 \<le> YearFromTime t2"
  then have "YearFromTime t2 + 1 \<le> YearFromTime t1" by simp
  then have "DayFromYear (YearFromTime t2 + 1) \<le> DayFromYear (YearFromTime t1)"
    by (rule DayFromYear_mono)
  with YearFromTime_bounds [of t1] YearFromTime_bounds [of t2] d show False by linarith
qed

lemma same_Day_fields:
  assumes "Day t1 = Day t2"
  shows "YearFromTime t1 = YearFromTime t2" "MonthFromTime t1 = MonthFromTime t2"
    "DateFromTime t1 = DateFromTime t2"
proof -
  show y: "YearFromTime t1 = YearFromTime t2" using assms by (simp add: YearFromTime_def)
  then have l: "InLeapYear t1 = InLeapYear t2" by (simp add: InLeapYear_def)
  have w: "DayWithinYear t1 = DayWithinYear t2" using assms y by (simp add: DayWithinYear_def)
  show m: "MonthFromTime t1 = MonthFromTime t2" unfolding MonthFromTime_def l w by (rule refl)
  show "DateFromTime t1 = DateFromTime t2" unfolding DateFromTime_def l w m by (rule refl)
qed

lemma same_Day_isoDate: "Day t1 = Day t2 \<Longrightarrow> isoDate t1 = isoDate t2"
  using same_Day_fields [of t1 t2] by (simp add: isoDate_def)

lemma month_bounds:
  "daysBeforeMonth (MonthFromTime t) (InLeapYear t) \<le> DayWithinYear t
   \<and> DayWithinYear t < daysBeforeMonth (MonthFromTime t) (InLeapYear t) + 31"
  using DayWithinYear_leap_range [of t] InLeapYear_cases [of t]
  by (auto simp: MonthFromTime_def daysBeforeMonth_def Let_def)

lemma DateFromTime_range: "1 \<le> DateFromTime t \<and> DateFromTime t \<le> 31"
  using month_bounds [of t] Day_decompose [of t] by (simp add: DayWithinYear_def)

lemma ind_mono:
  fixes w1 w2 c :: int
  shows "w1 \<le> w2 \<Longrightarrow> (if c \<le> w1 then 1 else 0 :: int) \<le> (if c \<le> w2 then 1 else 0)"
  by auto

lemma month_as_sum:
  fixes d l :: int
  assumes "l = 0 \<or> l = 1"
  shows "(if d < 31 then 0
         else if d < 59 + l then 1
         else if d < 90 + l then 2
         else if d < 120 + l then 3
         else if d < 151 + l then 4
         else if d < 181 + l then 5
         else if d < 212 + l then 6
         else if d < 243 + l then 7
         else if d < 273 + l then 8
         else if d < 304 + l then 9
         else if d < 334 + l then 10
         else 11) =
     (if 31 \<le> d then 1 else 0) + (if 59 + l \<le> d then 1 else 0) + (if 90 + l \<le> d then 1 else 0)
     + (if 120 + l \<le> d then 1 else 0) + (if 151 + l \<le> d then 1 else 0)
     + (if 181 + l \<le> d then 1 else 0) + (if 212 + l \<le> d then 1 else 0)
     + (if 243 + l \<le> d then 1 else 0) + (if 273 + l \<le> d then 1 else 0)
     + (if 304 + l \<le> d then 1 else (0::int)) + (if 334 + l \<le> d then 1 else 0)"
  using assms by auto

lemma MonthFromTime_mono:
  assumes "InLeapYear t1 = InLeapYear t2" "DayWithinYear t1 \<le> DayWithinYear t2"
  shows "MonthFromTime t1 \<le> MonthFromTime t2"
  unfolding MonthFromTime_def Let_def
    month_as_sum [OF InLeapYear_cases [of t1]] month_as_sum [OF InLeapYear_cases [of t2]]
  unfolding assms(1)
  by (intro add_mono ind_mono assms(2))

lemma isoDate_less:
  assumes d: "Day t1 < Day t2" and y1: "0 \<le> YearFromTime t1" and y2: "YearFromTime t2 \<le> 9999"
  shows "localeCompare (isoDate t1) (isoDate t2) = - 1"
proof -
  let ?p2 = "\<lambda>x. padStart 2 (CHR ''0'') (numberToString x)"
  have iso: "isoDate t = isoYear (YearFromTime t) @ CHR ''-'' # ?p2 (MonthFromTime t + 1)
               @ CHR ''-'' # ?p2 (DateFromTime t)" for t
    by (simp add: isoDate_def)
  have Y: "YearFromTime t1 \<le> YearFromTime t2" using d by (intro YearFromTime_mono) simp
  note m1 = MonthFromTime_range [of t1] and m2 = MonthFromTime_range [of t2]
  note d1 = DateFromTime_range [of t1] and d2 = DateFromTime_range [of t2]
  have len: "length (isoYear (YearFromTime t1)) = length (isoYear (YearFromTime t2))"
    "length (?p2 (MonthFromTime t1 + 1)) = length (?p2 (MonthFromTime t2 + 1))"
    using y1 y2 Y m1 m2 by (simp_all add: length_isoYear length_pad2)
  show ?thesis
  proof (cases "YearFromTime t1 < YearFromTime t2")
    case True
    then have "localeCompare (isoYear (YearFromTime t1)) (isoYear (YearFromTime t2)) = - 1"
      using y1 y2 by (intro isoYear_less)
    then show ?thesis
      unfolding iso by (intro localeCompare_less_prefix len)
  next
    case False
    with Y have Yeq: "YearFromTime t1 = YearFromTime t2" by simp
    then have l: "InLeapYear t1 = InLeapYear t2" by (simp add: InLeapYear_def)
    have w: "DayWithinYear t1 < DayWithinYear t2" using d Yeq by (simp add: DayWithinYear_def)
    then have M: "MonthFromTime t1 \<le> MonthFromTime t2" using l by (intro MonthFromTime_mono) simp_all
    show ?thesis
    proof (cases "MonthFromTime t1 < MonthFromTime t2")
      case True
      then have "localeCompare (?p2 (MonthFromTime t1 + 1)) (?p2 (MonthFromTime t2 + 1)) = - 1"
        using m1 m2 by (intro pad2_less) simp_all
      then have "localeCompare (?p2 (MonthFromTime t1 + 1) @ CHR ''-'' # ?p2 (DateFromTime t1))
            (?p2 (MonthFromTime t2 + 1) @ CHR ''-'' # ?p2 (DateFromTime t2)) = - 1"
        by (intro localeCompare_less_prefix len)
      then show ?thesis
        unfolding iso Yeq by (simp add: localeCompare_same_prefix)
    next
      case False
      with M have Meq: "MonthFromTime t1 = MonthFromTime t2" by simp
      have "DateFromTime t1 < DateFromTime t2"
        using Day_decompose [of t1] Day_decompose [of t2] d Yeq Meq l by simp
      then have "localeCompare (?p2 (DateFromTime t1)) (?p2 (DateFromTime t2)) = - 1"
        using d1 d2 by (intro pad2_less) simp_all
      then show ?thesis
        unfolding iso Yeq Meq by (simp add: localeCompare_same_prefix)
    qed
  qed
qed

lemma length_isoDate:
  assumes "0 \<le> YearFromTime t" "YearFromTime t \<le> 9999"
  shows "length (isoDate t) = 10"
  using assms MonthFromTime_range [of t] DateFromTime_range [of t]
  by (simp add: isoDate_def length_isoYear length_pad2)

lemma isoString_less:
  assumes lt: "t1 < t2" and y1: "0 \<le> YearFromTime t1" and y2: "YearFromTime t2 \<le> 9999"
  shows "localeCompare (isoString t1) (isoString t2) = - 1"
proof -
  have iso: "isoString t = isoDate t @ CHR ''T'' # isoTime t @ ''Z''" for t
    by (simp add: isoString_def)
  have D: "Day t1 \<le> Day t2" unfolding Day_def using lt by (intro zdiv_mono1) (simp_all add: msPerDay_def)
  then have Y: "YearFromTime t1 \<le> YearFromTime t2" by (rule YearFromTime_mono)
  show ?thesis
  proof (cases "Day t1 < Day t2")
    case True
    then have "localeCompare (isoDate t1) (isoDate t2) = - 1"
      using y1 y2 by (rule isoDate_less)
    moreover have "length (isoDate t1) = length (isoDate t2)"
      using y1 y2 Y by (simp add: length_isoDate)
    ultimately show ?thesis
      unfolding iso by (intro localeCompare_less_prefix)
  next
    case False
    with D have Deq: "Day t1 = Day t2" by simp
    have tl: "length (isoTime t1) = length (isoTime t2)"
      using time_field_ranges [of t1] time_field_ranges [of t2]
      by (simp add: isoTime_def length_pad2 length_pad3)
    have "localeCompare (isoTime t1) (isoTime t2) = - 1" using Deq lt by (rule isoTime_less)
    then have "localeCompare (isoTime t1 @ ''Z'') (isoTime t2 @ ''Z'') = - 1"
      using tl by (intro localeCompare_less_prefix)
    then show ?thesis
      unfolding iso same_Day_isoDate [OF Deq] by (simp add: localeCompare_same_prefix)
  qed
qed

lemma isoString_le_iff:
  assumes "0 \<le> YearFromTime t1" "YearFromTime t1 \<le> 9999"
    and "0 \<le> YearFromTime t2" "YearFromTime t2 \<le> 9999"
  shows "(localeCompare (isoString t1) (isoString t2) \<le> 0) = (t1 \<le> t2)"
proof -
  consider "t1 < t2" | "t1 = t2" | "t2 < t1" by linarith
  then show ?thesis
  proof cases
    case 1
    then show ?thesis using isoString_less [of t1 t2] assms by simp
  next
    case 2
    then show ?thesis by (simp add: localeCompare_same)
  next
    case 3
    then have "localeCompare (isoString t2) (isoString t1) = - 1"
      using isoString_less [of t2 t1] assms by simp
    then have "localeCompare (isoString t1) (isoString t2) = 1"
      using localeCompare_flip [of "isoString t1" "isoString t2"] by simp
    with 3 show ?thesis by simp
  qed
qed

lemma YearFromTime_four_digits:
  assumes "0 \<le> t" "t < 253402300800000"
  shows "0 \<le> YearFromTime t \<and> YearFromTime t \<le> 9999"
proof -
  have lo: "1970 \<le> YearFromTime t" using assms(1) by (rule YearFromTime_ge_1970)
  have "Day t < 2932897"
    using div_bounds [of 86400000 t] assms(2) by (simp add: Day_def msPerDay_def)
  moreover have "DayFromYear 10000 = 2932897" by (simp add: DayFromYear_def)
  ultimately have "Day t < DayFromYear 10000" by simp
  have "YearFromTime t < 10000"
  proof (rule ccontr)
    assume "\<not> YearFromTime t < 10000"
    then have "DayFromYear 10000 \<le> DayFromYear (YearFromTime t)" by (intro DayFromYear_mono) simp
    with YearFromTime_bounds [of t] \<open>Day t < DayFromYear 10000\<close> show False by linarith
  qed
  with lo show ?thesis by simp
qed

subsection \<open>Order of the upcoming sessions\<close>

lemma slot_sessions_map:
  "concat (map (\<lambda>d. if P d then [sessionInstance now ct d] else []) ds) =
     map (\<lambda>(ct, d). sessionInstance now ct d)
       (concat (map (\<lambda>d. if P d then [(ct, d)] else []) ds))"
  by (induction ds) auto

lemma expand_slotDays:
  "expand now cts = map (\<lambda>(ct, d). sessionInstance now ct d) (slotDays now cts)"
  by (induction cts) (simp_all add: expand_def slotDays_def expandSlot_def slot_sessions_map)

lemma set_slotDays:
  "set (slotDays now cts) =
     {(ct, d). ct \<in> set cts \<and> d < horizon \<and> WeekDay (candidateDate now d) = ct_dayOfWeek ct}"
  by (auto simp: slotDays_def split: if_splits)

lemma insertBy_map:
  "insertBy cmp (f x) (map f ys) = map f (insertBy (\<lambda>a b. cmp (f a) (f b)) x ys)"
  by (induction ys) auto

lemma sortBy_map:
  "sortBy cmp (map f xs) = map f (sortBy (\<lambda>a b. cmp (f a) (f b)) xs)"
  by (induction xs) (simp_all add: sortBy_def insertBy_map)

lemma insertBy_insort_key_on:
  "(\<And>b. b \<in> set ys \<Longrightarrow> (cmp x b \<le> 0) = (key x \<le> key b)) \<Longrightarrow>
     insertBy cmp x ys = insort_key key x ys"
  by (induction ys) auto

lemma sortBy_sort_key_on:
  "(\<And>a b. a \<in> set xs \<Longrightarrow> b \<in> set xs \<Longrightarrow> (cmp a b \<le> 0) = (key a \<le> key b)) \<Longrightarrow>
     sortBy cmp xs = sort_key key xs"
proof (induction xs)
  case Nil
  then show ?case by (simp add: sortBy_def)
next
  case (Cons x xs)
  have IH: "sortBy cmp xs = sort_key key xs" using Cons by simp
  have "insertBy cmp x (sort_key key xs) = insort_key key x (sort_key key xs)"
    by (rule insertBy_insort_key_on) (simp add: Cons.prems)
  then show ?case
    using IH by (simp add: sortBy_def)
qed

lemma startInstant_four_digits:
  assumes c: "0 \<le> now" "now \<le> 253000000000000" and d: "d < 7"
    and m: "0 \<le> ct_startMinutes ct" "ct_startMinutes ct \<le> 1439"
  shows "0 \<le> YearFromTime (startInstant now ct d) \<and> YearFromTime (startInstant now ct d) \<le> 9999"
proof (rule YearFromTime_four_digits)
  have dn: "Day now * msPerDay \<le> now" by (rule Day_mult_le)
  have d0: "0 \<le> Day now" using c by (simp add: Day_def msPerDay_def)
  have "int d \<le> 7" using d by simp
  then have i: "int d * 86400000 \<le> 604800000" by simp
  have cd: "candidateDate now d = Day now * 86400000 + int d * 86400000"
    by (simp add: candidateDate_eq msPerDay_def algebra_simps)
  have mins: "0 \<le> ct_startMinutes ct * 60000" "ct_startMinutes ct * 60000 \<le> 86340000"
    using m by simp_all
  show "0 \<le> startInstant now ct d"
    unfolding startInstant_def cd msPerMinute_def using d0 mins by simp
  show "startInstant now ct d < 253402300800000"
    unfolding startInstant_def cd msPerMinute_def using dn c i mins by (simp add: msPerDay_def)
qed

text \<open>
  Claim C2, as amended.  For a clock between 1970 and the year 9987, start minutes from
  0 to 1439 and end minutes in the 32-bit range, the expansion returns the sessions of
  the matching slots and offsets sorted ascending by start instant (the ISO strings
  the code compares order as the instants do), and sessions with the same start
  instant keep the order in which the expansion produced them, that of the input list
  of slots: the sort is stable and does not look at the slot identifier.
\<close>

theorem sessions_sorted_by_start:
  assumes c: "0 \<le> now" "now \<le> 253000000000000"
    and m: "\<forall>ct \<in> set cts. 0 \<le> ct_startMinutes ct \<and> ct_startMinutes ct \<le> 1439
                \<and> int32 (ct_endMinutes ct)"
  shows "\<exists>ps. upcomingSessions now cts = Inr (map (\<lambda>(ct, d). sessionInstance now ct d) ps)
     \<and> mset ps = mset (slotDays now cts)
     \<and> sorted (map (\<lambda>(ct, d). startInstant now ct d) ps)
     \<and> (\<forall>t. filter (\<lambda>(ct, d). startInstant now ct d = t) ps
            = filter (\<lambda>(ct, d). startInstant now ct d = t) (slotDays now cts))"
proof -
  let ?key = "\<lambda>(ct, d). startInstant now ct d"
  let ?f = "\<lambda>(ct, d). sessionInstance now ct d"
  let ?ps = "sort_key ?key (slotDays now cts)"
  have cr: "clockInRange now" using c by (simp add: clockInRange_def)
  have mr: "\<forall>ct \<in> set cts. int32 (ct_startMinutes ct) \<and> int32 (ct_endMinutes ct)"
    using m by (auto simp: int32_def)
  have cmp: "(byStart (?f p) (?f q) \<le> 0) = (?key p \<le> ?key q)"
    if "p \<in> set (slotDays now cts)" "q \<in> set (slotDays now cts)" for p q
  proof -
    obtain ct d where p: "p = (ct, d)" by (cases p)
    obtain ct' d' where q: "q = (ct', d')" by (cases q)
    from that p q have in1: "ct \<in> set cts" "d < 7" and in2: "ct' \<in> set cts" "d' < 7"
      by (auto simp: set_slotDays horizon_def)
    have y1: "0 \<le> YearFromTime (startInstant now ct d) \<and> YearFromTime (startInstant now ct d) \<le> 9999"
      using c in1 m by (intro startInstant_four_digits) auto
    have y2: "0 \<le> YearFromTime (startInstant now ct' d') \<and> YearFromTime (startInstant now ct' d') \<le> 9999"
      using c in2 m by (intro startInstant_four_digits) auto
    show ?thesis
      using y1 y2 by (simp add: p q byStart_def sessionInstance_def isoString_le_iff)
  qed
  have "sortBy byStart (expand now cts)
          = map ?f (sortBy (\<lambda>a b. byStart (?f a) (?f b)) (slotDays now cts))"
    by (simp add: expand_slotDays sortBy_map)
  also have "sortBy (\<lambda>a b. byStart (?f a) (?f b)) (slotDays now cts) = ?ps"
    by (rule sortBy_sort_key_on) (rule cmp)
  finally have 1: "upcomingSessions now cts = Inr (map ?f ?ps)"
    using upcomingSessions_eq [OF cr mr] by simp
  have 2: "mset ?ps = mset (slotDays now cts)" by simp
  have 3: "sorted (map ?key ?ps)" by (rule sorted_sort_key)
  have 4: "filter (\<lambda>(ct, d). startInstant now ct d = t) ?ps
         = filter (\<lambda>(ct, d). startInstant now ct d = t) (slotDays now cts)" for t
  proof -
    have e: "(\<lambda>(ct, d). startInstant now ct d = t) = (\<lambda>p. ?key p = t)" by auto
    show ?thesis unfolding e by (rule sort_key_stable)
  qed
  from 1 2 3 4 show ?thesis by blast
qed


text \<open>
  A Thursday slot listed before a Wednesday slot comes out after it.
\<close>

theorem sessions_sorted_by_start_witness:
  "(0::int) \<le> 1762086896789 \<and> (1762086896789::int) \<le> 253000000000000
   \<and> (0::int) \<le> 600 \<and> (600::int) \<le> 1439 \<and> int32 660
   \<and> upcomingSessions 1762086896789
       [\<lparr>ct_id = ''t1'', ct_classId = ''c1'', ct_dayOfWeek = 4, ct_startMinutes = 600,
         ct_endMinutes = 660, ct_class = None\<rparr>,
        \<lparr>ct_id = ''t2'', ct_classId = ''c1'', ct_dayOfWeek = 3, ct_startMinutes = 600,
         ct_endMinutes = 660, ct_class = None\<rparr>]
     = Inr [\<lparr>us_id = ''t2-2025-11-05'', us_classId = ''c1'', us_className = ''Unnamed'',
             us_teacher = None, us_start = ''2025-11-05T10:00:00.000Z'',
             us_end = ''2025-11-05T11:00:00.000Z'', us_dayOfWeek = 3\<rparr>,
            \<lparr>us_id = ''t1-2025-11-06'', us_classId = ''c1'', us_className = ''Unnamed'',
             us_teacher = None, us_start = ''2025-11-06T10:00:00.000Z'',
             us_end = ''2025-11-06T11:00:00.000Z'', us_dayOfWeek = 4\<rparr>]"
proof -
  let ?cts = "[\<lparr>ct_id = ''t1'', ct_classId = ''c1'', ct_dayOfWeek = 4, ct_startMinutes = 600,
         ct_endMinutes = 660, ct_class = None\<rparr>,
        \<lparr>ct_id = ''t2'', ct_classId = ''c1'', ct_dayOfWeek = 3, ct_startMinutes = 600,
         ct_endMinutes = 660, ct_class = None\<rparr>]"
  have c: "(0::int) \<le> 1762086896789" "(1762086896789::int) \<le> 253000000000000" by simp_all
  have m: "(0::int) \<le> 600" "(600::int) \<le> 1439" "int32 660" by (simp_all add: int32_def)
  then have r: "\<forall>ct \<in> set ?cts. 0 \<le> ct_startMinutes ct \<and> ct_startMinutes ct \<le> 1439
                \<and> int32 (ct_endMinutes ct)" by simp
  obtain ps where "upcomingSessions 1762086896789 ?cts
      = Inr (map (\<lambda>(ct, d). sessionInstance 1762086896789 ct d) ps)"
    using sessions_sorted_by_start [OF c r] by blast
  moreover have "upcomingSessions 1762086896789 ?cts
     = Inr [\<lparr>us_id = ''t2-2025-11-05'', us_classId = ''c1'', us_className = ''Unnamed'',
             us_teacher = None, us_start = ''2025-11-05T10:00:00.000Z'',
             us_end = ''2025-11-05T11:00:00.000Z'', us_dayOfWeek = 3\<rparr>,
            \<lparr>us_id = ''t1-2025-11-06'', us_classId = ''c1'', us_className = ''Unnamed'',
             us_teacher = None, us_start = ''2025-11-06T10:00:00.000Z'',
             us_end = ''2025-11-06T11:00:00.000Z'', us_dayOfWeek = 4\<rparr>]"
    by code_simp
  ultimately show ?thesis using c m by simp
qed

text \<open>
  Two slots on the same day with the same start tie; the slot \<open>b\<close>, listed first, stays
  in front of the slot \<open>a\<close>, although \<open>b\<close> compares greater than \<open>a\<close>.  Outside the
  valid start minutes the order by start instant fails as well: start minutes far
  enough below zero give years before 0000, written with a sign and six digits, and of
  two such sessions the later one (year -1777) is put before the earlier one
  (year -1967).
\<close>

theorem sessions_tie_order_counterexample:
  "upcomingSessions 1762086896789
       [\<lparr>ct_id = ''b'', ct_classId = ''c1'', ct_dayOfWeek = 3, ct_startMinutes = 600,
         ct_endMinutes = 660, ct_class = None\<rparr>,
        \<lparr>ct_id = ''a'', ct_classId = ''c1'', ct_dayOfWeek = 3, ct_startMinutes = 600,
         ct_endMinutes = 660, ct_class = None\<rparr>]
     = Inr [\<lparr>us_id = ''b-2025-11-05'', us_classId = ''c1'', us_className = ''Unnamed'',
             us_teacher = None, us_start = ''2025-11-05T10:00:00.000Z'',
             us_end = ''2025-11-05T11:00:00.000Z'', us_dayOfWeek = 3\<rparr>,
            \<lparr>us_id = ''a-2025-11-05'', us_classId = ''c1'', us_className = ''Unnamed'',
             us_teacher = None, us_start = ''2025-11-05T10:00:00.000Z'',
             us_end = ''2025-11-05T11:00:00.000Z'', us_dayOfWeek = 3\<rparr>]
   \<and> localeCompare ''b'' ''a'' = 1
   \<and> localeCompare ''b-2025-11-05'' ''a-2025-11-05'' = 1
   \<and> upcomingSessions 1762086896789
       [\<lparr>ct_id = ''t1'', ct_classId = ''c1'', ct_dayOfWeek = 3, ct_startMinutes = - 2000000000,
         ct_endMinutes = 0, ct_class = None\<rparr>,
        \<lparr>ct_id = ''t2'', ct_classId = ''c1'', ct_dayOfWeek = 3, ct_startMinutes = - 2100000000,
         ct_endMinutes = 0, ct_class = None\<rparr>]
     = Inr [\<lparr>us_id = ''t1-2025-11-05'', us_classId = ''c1'', us_className = ''Unnamed'',
             us_teacher = None, us_start = ''-001777-03-14T02:40:00.000Z'',
             us_end = ''2025-11-05T00:00:00.000Z'', us_dayOfWeek = 3\<rparr>,
            \<lparr>us_id = ''t2-2025-11-05'', us_classId = ''c1'', us_className = ''Unnamed'',
             us_teacher = None, us_start = ''-001967-01-23T16:00:00.000Z'',
             us_end = ''2025-11-05T00:00:00.000Z'', us_dayOfWeek = 3\<rparr>]
   \<and> startInstant 1762086896789
         \<lparr>ct_id = ''t2'', ct_classId = ''c1'', ct_dayOfWeek = 3, ct_startMinutes = - 2100000000,
          ct_endMinutes = 0, ct_class = None\<rparr> 3
       < startInstant 1762086896789
         \<lparr>ct_id = ''t1'', ct_classId = ''c1'', ct_dayOfWeek = 3, ct_startMinutes = - 2000000000,
          ct_endMinutes = 0, ct_class = None\<rparr> 3"
  by code_simp

end
